theory Spec2Isabelle
  imports Complex_Main "HOL-Library.Char_ord" "HOL-Library.List_Lexorder"
begin

section \<open>The task documents (models/Task.js)\<close>

text \<open>
  An ObjectId is an opaque identifier; only equality of ids is ever used. Dates are
  milliseconds since the epoch, as \<^verbatim>\<open>Date.getTime()\<close> gives them. A schema path that
  may be absent (\<^verbatim>\<open>undefined\<close> or \<^verbatim>\<open>null\<close>) is an option.
\<close>

type_synonym object_id = nat
type_synonym date = int

text \<open>\<^verbatim>\<open>subtaskSchema\<close>: \<^verbatim>\<open>_id\<close>, \<^verbatim>\<open>title\<close>, \<^verbatim>\<open>is_completed\<close>.\<close>

record subtask =
  subtask_id :: object_id
  subtask_title :: "string option"
  subtask_is_completed :: bool

text \<open>
  \<^verbatim>\<open>taskSchema\<close>; \<open>task_id\<close> is the document's \<^verbatim>\<open>_id\<close>. Of the two timestamps,
  \<^verbatim>\<open>createdAt\<close> is kept, which the listing sorts by; \<^verbatim>\<open>updatedAt\<close> and the timestamps
  of the subtasks are written by the library and read by no code here.
\<close>

record task =
  task_id :: object_id
  user_id :: object_id
  title :: "string option"
  description :: "string option"
  is_completed :: bool
  priority :: string
  due_date :: "date option"
  subtasks :: "subtask list"
  notification_sent :: bool
  createdAt :: date

text \<open>The collection, in insertion (natural) order.\<close>

type_synonym store = "task list"

subsection \<open>Schema setters and validators\<close>

text \<open>
  \<^verbatim>\<open>trim: true\<close> applies \<^verbatim>\<open>String.prototype.trim\<close> whenever the path is set. The
  characters below are the white space and line terminators of ECMAScript that an
  8-bit character can hold.
\<close>

definition is_space :: "char \<Rightarrow> bool" where
  "is_space c =
     (c \<in> set [CHR 0x09, CHR 0x0A, CHR 0x0B, CHR 0x0C, CHR 0x0D, CHR 0x20, CHR 0xA0])"

definition trim :: "string \<Rightarrow> string" where
  "trim s = rev (dropWhile is_space (rev (dropWhile is_space s)))"

text \<open>\<^verbatim>\<open>required\<close> on a String path fails on a missing value and on the empty string.\<close>

definition title_ok :: "string option \<Rightarrow> bool" where
  "title_ok v = (case v of None \<Rightarrow> False | Some s \<Rightarrow> s \<noteq> [] \<and> length s \<le> 200)"

definition description_ok :: "string option \<Rightarrow> bool" where
  "description_ok v = (case v of None \<Rightarrow> True | Some s \<Rightarrow> length s \<le> 1000)"

definition priority_ok :: "string \<Rightarrow> bool" where
  "priority_ok p = (p \<in> set [''Low'', ''Medium'', ''High''])"

text \<open>
  The validator of \<^verbatim>\<open>due_date\<close>:
  \<^verbatim>\<open>if (this.isNew && value && value < new Date()) return false; return true\<close>.
  The first argument is the clock reading for a new document and \<open>None\<close> for a loaded
  one (\<^verbatim>\<open>isNew\<close> false).
\<close>

definition due_date_ok :: "date option \<Rightarrow> date option \<Rightarrow> bool" where
  "due_date_ok isNew v =
     (case isNew of
        None \<Rightarrow> True
      | Some now \<Rightarrow> (case v of None \<Rightarrow> True | Some d \<Rightarrow> \<not> d < now))"

definition subtask_ok :: "subtask \<Rightarrow> bool" where
  "subtask_ok s = title_ok (subtask_title s)"

definition validate :: "date option \<Rightarrow> task \<Rightarrow> bool" where
  "validate isNew t =
     (title_ok (title t) \<and> description_ok (description t) \<and> priority_ok (priority t) \<and>
      due_date_ok isNew (due_date t) \<and> list_all subtask_ok (subtasks t))"

subsection \<open>Virtuals and the pre-save hook\<close>

text \<open>
  \<^verbatim>\<open>return this.due_date && this.due_date < new Date() && !this.is_completed\<close>:
  JavaScript's \<^verbatim>\<open>&&\<close> returns its first falsy operand, so a task without a due date
  yields that absent value, not the boolean \<^verbatim>\<open>false\<close>. A Date object is always truthy.
\<close>

datatype js_value = Undefined | Boolean bool

fun truthy :: "js_value \<Rightarrow> bool" where
  "truthy Undefined = False"
| "truthy (Boolean b) = b"

definition isOverdue :: "date \<Rightarrow> task \<Rightarrow> js_value" where
  "isOverdue now t =
     (case due_date t of
        None \<Rightarrow> Undefined
      | Some d \<Rightarrow> if d < now then Boolean (\<not> is_completed t) else Boolean False)"

definition completedSubtasksCount :: "task \<Rightarrow> nat" where
  "completedSubtasksCount t = length (filter subtask_is_completed (subtasks t))"

definition totalSubtasksCount :: "task \<Rightarrow> nat" where
  "totalSubtasksCount t = length (subtasks t)"

text \<open>\<^verbatim>\<open>taskSchema.pre("save", ...)\<close>.\<close>

definition pre_save :: "task \<Rightarrow> task" where
  "pre_save t =
     (if length (subtasks t) > 0 then
        (let completedSubtasks = length (filter subtask_is_completed (subtasks t))
         in if completedSubtasks = length (subtasks t) then t\<lparr>is_completed := True\<rparr> else t)
      else t)"

section \<open>The store (the queries and writes the code issues)\<close>

text \<open>
  A query is answered from the collection. A write goes to the database and can be
  rejected there (connection lost, document removed meanwhile); the promise of
  \<^verbatim>\<open>save()\<close> then rejects, which the caller sees as a thrown error. The parameter
  \<open>accepts\<close> of the writing operations says which writes the database accepts.
\<close>

text \<open>\<^verbatim>\<open>Task.findOne({ _id: id, user_id: userId })\<close>.\<close>

definition findOne :: "object_id \<Rightarrow> object_id \<Rightarrow> store \<Rightarrow> task option" where
  "findOne tid uid db = List.find (\<lambda>t. task_id t = tid \<and> user_id t = uid) db"

text \<open>The update of the document with the \<^verbatim>\<open>_id\<close> of \<open>t\<close>, which \<^verbatim>\<open>save()\<close> issues.\<close>

fun updateOne :: "task \<Rightarrow> store \<Rightarrow> store" where
  "updateOne t [] = []"
| "updateOne t (d # ds) = (if task_id d = task_id t then t # ds else d # updateOne t ds)"

text \<open>\<^verbatim>\<open>Task.findByIdAndDelete(id)\<close>.\<close>

fun findByIdAndDelete :: "object_id \<Rightarrow> store \<Rightarrow> store" where
  "findByIdAndDelete tid [] = []"
| "findByIdAndDelete tid (d # ds) =
     (if task_id d = tid then ds else d # findByIdAndDelete tid ds)"

datatype save_error = ValidationError | DuplicateKey | WriteRejected

text \<open>
  \<^verbatim>\<open>doc.save()\<close> on a loaded document: the schema validators run first, then the
  pre-save hook, then the write.
\<close>

definition save :: "(task \<Rightarrow> bool) \<Rightarrow> task \<Rightarrow> store \<Rightarrow> save_error + task \<times> store" where
  "save accepts t db =
     (if \<not> validate None t then Inl ValidationError
      else (let t' = pre_save t
            in if accepts t' then Inr (t', updateOne t' db) else Inl WriteRejected))"

text \<open>
  \<^verbatim>\<open>Task.create(doc)\<close>: the same on a new document (\<^verbatim>\<open>isNew\<close>), inserted at the end;
  the unique index on \<^verbatim>\<open>_id\<close> rejects an identifier already present.
\<close>

definition create :: "(task \<Rightarrow> bool) \<Rightarrow> date \<Rightarrow> task \<Rightarrow> store \<Rightarrow> save_error + task \<times> store" where
  "create accepts now t db =
     (if \<not> validate (Some now) t then Inl ValidationError
      else (let t' = pre_save t
            in if \<not> accepts t' then Inl WriteRejected
               else if task_id t' \<in> set (map task_id db) then Inl DuplicateKey
               else Inr (t', db @ [t'])))"

subsection \<open>Subdocument arrays\<close>

text \<open>\<^verbatim>\<open>subtasks.id(id)\<close>: the first subdocument with this \<^verbatim>\<open>_id\<close>.\<close>

definition subtasks_id :: "object_id \<Rightarrow> subtask list \<Rightarrow> subtask option" where
  "subtasks_id sid ss = List.find (\<lambda>s. subtask_id s = sid) ss"

text \<open>An assignment to a path of the subdocument that \<^verbatim>\<open>subtasks.id(id)\<close> returned.\<close>

fun modify_id :: "(subtask \<Rightarrow> subtask) \<Rightarrow> object_id \<Rightarrow> subtask list \<Rightarrow> subtask list" where
  "modify_id f sid [] = []"
| "modify_id f sid (s # ss) =
     (if subtask_id s = sid then f s # ss else s # modify_id f sid ss)"

text \<open>\<^verbatim>\<open>subtasks.pull(id)\<close> removes every subdocument with this \<^verbatim>\<open>_id\<close>.\<close>

definition pull :: "object_id \<Rightarrow> subtask list \<Rightarrow> subtask list" where
  "pull sid ss = filter (\<lambda>s. subtask_id s \<noteq> sid) ss"

subsection \<open>Instance methods of the model\<close>

text \<open>
  \<^verbatim>\<open>taskSchema.methods.addSubtask\<close>: \<^verbatim>\<open>push\<close> casts the data to a subdocument, which
  gets the generated \<^verbatim>\<open>_id\<close> \<open>new_id\<close> and the trimmed title.
\<close>

definition Task_addSubtask ::
  "(task \<Rightarrow> bool) \<Rightarrow> object_id \<Rightarrow> string option \<Rightarrow> bool \<Rightarrow> task \<Rightarrow> store \<Rightarrow>
     save_error + task \<times> store" where
  "Task_addSubtask accepts new_id ttl done t db =
     save accepts
       (t\<lparr>subtasks := subtasks t @
            [\<lparr>subtask_id = new_id, subtask_title = map_option trim ttl,
              subtask_is_completed = done\<rparr>]\<rparr>) db"

text \<open>
  \<^verbatim>\<open>taskSchema.methods.updateSubtask\<close>: \<open>None\<close> is the thrown
  \<^verbatim>\<open>Error("Subtask not found")\<close>. The update data holds the keys \<^verbatim>\<open>title\<close> and
  \<^verbatim>\<open>is_completed\<close> that the controller copied.
\<close>

definition apply_updateData :: "string option \<Rightarrow> bool option \<Rightarrow> subtask \<Rightarrow> subtask" where
  "apply_updateData ttl done s =
     (let s1 = (case ttl of None \<Rightarrow> s | Some x \<Rightarrow> s\<lparr>subtask_title := Some (trim x)\<rparr>)
      in (case done of None \<Rightarrow> s1 | Some c \<Rightarrow> s1\<lparr>subtask_is_completed := c\<rparr>))"

definition Task_updateSubtask ::
  "(task \<Rightarrow> bool) \<Rightarrow> object_id \<Rightarrow> string option \<Rightarrow> bool option \<Rightarrow> task \<Rightarrow> store \<Rightarrow>
     (save_error + task \<times> store) option" where
  "Task_updateSubtask accepts sid ttl done t db =
     (case subtasks_id sid (subtasks t) of
        None \<Rightarrow> None
      | Some _ \<Rightarrow>
          Some (save accepts
                  (t\<lparr>subtasks := modify_id (apply_updateData ttl done) sid (subtasks t)\<rparr>) db))"

text \<open>\<^verbatim>\<open>taskSchema.methods.removeSubtask\<close>.\<close>

definition Task_removeSubtask ::
  "(task \<Rightarrow> bool) \<Rightarrow> object_id \<Rightarrow> task \<Rightarrow> store \<Rightarrow> save_error + task \<times> store" where
  "Task_removeSubtask accepts sid t db = save accepts (t\<lparr>subtasks := pull sid (subtasks t)\<rparr>) db"

section \<open>The task controller (controllers/taskController.js)\<close>

text \<open>
  A response is its status code with the fields of its JSON body that vary:
  \<open>Success status message task\<close> has \<^verbatim>\<open>success: true\<close>, \<open>NotFound message\<close> is the
  404 of the controller, \<open>BadRequest\<close> and \<open>ServerError\<close> are the 400 and the 500 that
  \<^verbatim>\<open>errorHandler\<close> sends for an error which \<^verbatim>\<open>asyncHandler\<close> passed on.
\<close>

datatype response =
    Success nat "string option" "task option"
  | NotFound string
  | BadRequest
  | ServerError

fun errorHandler :: "save_error \<Rightarrow> response" where
  "errorHandler DuplicateKey = BadRequest"
| "errorHandler ValidationError = BadRequest"
| "errorHandler WriteRejected = ServerError"

text \<open>The end of a handler that awaited a save: the JSON of the saved task, or the error.\<close>

definition reply ::
  "nat \<Rightarrow> string option \<Rightarrow> save_error + task \<times> store \<Rightarrow> store \<Rightarrow> response \<times> store" where
  "reply status message r db =
     (case r of
        Inl e \<Rightarrow> (errorHandler e, db)
      | Inr (t', db') \<Rightarrow> (Success status message (Some t'), db'))"

definition getTask :: "object_id \<Rightarrow> object_id \<Rightarrow> store \<Rightarrow> response \<times> store" where
  "getTask tid uid db =
     (case findOne tid uid db of
        None \<Rightarrow> (NotFound ''Task not found'', db)
      | Some t \<Rightarrow> (Success 200 None (Some t), db))"

text \<open>
  The body of \<^verbatim>\<open>POST /api/tasks\<close>. Each subtask comes with the \<^verbatim>\<open>_id\<close> it gets (sent by
  the client or generated) and with the default of \<^verbatim>\<open>is_completed\<close> applied.
\<close>

record task_input =
  in_title :: "string option"
  in_description :: "string option"
  in_priority :: "string option"
  in_due_date :: "date option"
  in_subtasks :: "subtask list"

definition new_task :: "date \<Rightarrow> object_id \<Rightarrow> object_id \<Rightarrow> task_input \<Rightarrow> task" where
  "new_task now new_id uid b =
     \<lparr>task_id = new_id, user_id = uid,
      title = map_option trim (in_title b),
      description = map_option trim (in_description b),
      is_completed = False,
      priority = (case in_priority b of None \<Rightarrow> ''Low'' | Some p \<Rightarrow> p),
      due_date = in_due_date b,
      subtasks = map (\<lambda>s. s\<lparr>subtask_title := map_option trim (subtask_title s)\<rparr>) (in_subtasks b),
      notification_sent = False,
      createdAt = now\<rparr>"

definition createTask ::
  "(task \<Rightarrow> bool) \<Rightarrow> date \<Rightarrow> object_id \<Rightarrow> object_id \<Rightarrow> task_input \<Rightarrow> store \<Rightarrow>
     response \<times> store" where
  "createTask accepts now new_id uid b db =
     reply 201 (Some ''Task created successfully'')
       (create accepts now (new_task now new_id uid b) db) db"

text \<open>
  The body of \<^verbatim>\<open>PUT /api/tasks/:id\<close>: \<open>None\<close> is a field that is \<^verbatim>\<open>undefined\<close>. A due
  date can also be sent as \<^verbatim>\<open>null\<close> (\<open>Some None\<close>), which clears it.
\<close>

record task_patch =
  new_title :: "string option"
  new_description :: "string option"
  new_priority :: "string option"
  new_due_date :: "date option option"
  new_is_completed :: "bool option"

definition apply_patch :: "task_patch \<Rightarrow> task \<Rightarrow> task" where
  "apply_patch b t =
     (let t1 = (case new_title b of None \<Rightarrow> t | Some s \<Rightarrow> t\<lparr>title := Some (trim s)\<rparr>);
          t2 = (case new_description b of None \<Rightarrow> t1 | Some s \<Rightarrow> t1\<lparr>description := Some (trim s)\<rparr>);
          t3 = (case new_priority b of None \<Rightarrow> t2 | Some p \<Rightarrow> t2\<lparr>priority := p\<rparr>);
          t4 = (case new_due_date b of None \<Rightarrow> t3 | Some d \<Rightarrow> t3\<lparr>due_date := d\<rparr>)
      in (case new_is_completed b of None \<Rightarrow> t4 | Some c \<Rightarrow> t4\<lparr>is_completed := c\<rparr>))"

definition updateTask ::
  "(task \<Rightarrow> bool) \<Rightarrow> object_id \<Rightarrow> object_id \<Rightarrow> task_patch \<Rightarrow> store \<Rightarrow> response \<times> store" where
  "updateTask accepts tid uid b db =
     (case findOne tid uid db of
        None \<Rightarrow> (NotFound ''Task not found'', db)
      | Some t \<Rightarrow>
          reply 200 (Some ''Task updated successfully'') (save accepts (apply_patch b t) db) db)"

definition deleteTask ::
  "(task \<Rightarrow> bool) \<Rightarrow> object_id \<Rightarrow> object_id \<Rightarrow> store \<Rightarrow> response \<times> store" where
  "deleteTask accepts tid uid db =
     (case findOne tid uid db of
        None \<Rightarrow> (NotFound ''Task not found'', db)
      | Some t \<Rightarrow>
          if accepts t
          then (Success 200 (Some ''Task deleted successfully'') None, findByIdAndDelete tid db)
          else (ServerError, db))"

text \<open>\<^verbatim>\<open>const { title, is_completed = false } = req.body\<close>.\<close>

definition addSubtask ::
  "(task \<Rightarrow> bool) \<Rightarrow> object_id \<Rightarrow> object_id \<Rightarrow> object_id \<Rightarrow> string option \<Rightarrow> bool option \<Rightarrow>
     store \<Rightarrow> response \<times> store" where
  "addSubtask accepts new_id tid uid ttl done db =
     (case findOne tid uid db of
        None \<Rightarrow> (NotFound ''Task not found'', db)
      | Some t \<Rightarrow>
          reply 201 (Some ''Subtask added successfully'')
            (Task_addSubtask accepts new_id ttl (case done of None \<Rightarrow> False | Some c \<Rightarrow> c) t db)
            db)"

definition updateSubtask ::
  "(task \<Rightarrow> bool) \<Rightarrow> object_id \<Rightarrow> object_id \<Rightarrow> object_id \<Rightarrow> string option \<Rightarrow> bool option \<Rightarrow>
     store \<Rightarrow> response \<times> store" where
  "updateSubtask accepts tid sid uid ttl done db =
     (case findOne tid uid db of
        None \<Rightarrow> (NotFound ''Task not found'', db)
      | Some t \<Rightarrow>
          (case Task_updateSubtask accepts sid ttl done t db of
             None \<Rightarrow> (NotFound ''Subtask not found'', db)
           | Some r \<Rightarrow> reply 200 (Some ''Subtask updated successfully'') r db))"

definition deleteSubtask ::
  "(task \<Rightarrow> bool) \<Rightarrow> object_id \<Rightarrow> object_id \<Rightarrow> object_id \<Rightarrow> store \<Rightarrow> response \<times> store" where
  "deleteSubtask accepts tid sid uid db =
     (case findOne tid uid db of
        None \<Rightarrow> (NotFound ''Task not found'', db)
      | Some t \<Rightarrow>
          (case subtasks_id sid (subtasks t) of
             None \<Rightarrow> (NotFound ''Subtask not found'', db)
           | Some _ \<Rightarrow>
               reply 200 (Some ''Subtask deleted successfully'')
                 (Task_removeSubtask accepts sid t db) db))"

definition toggleTaskCompletion ::
  "(task \<Rightarrow> bool) \<Rightarrow> object_id \<Rightarrow> object_id \<Rightarrow> store \<Rightarrow> response \<times> store" where
  "toggleTaskCompletion accepts tid uid db =
     (case findOne tid uid db of
        None \<Rightarrow> (NotFound ''Task not found'', db)
      | Some t \<Rightarrow> reply 200 None (save accepts (t\<lparr>is_completed := \<not> is_completed t\<rparr>) db) db)"

definition toggleSubtaskCompletion ::
  "(task \<Rightarrow> bool) \<Rightarrow> object_id \<Rightarrow> object_id \<Rightarrow> object_id \<Rightarrow> store \<Rightarrow> response \<times> store" where
  "toggleSubtaskCompletion accepts tid sid uid db =
     (case findOne tid uid db of
        None \<Rightarrow> (NotFound ''Task not found'', db)
      | Some t \<Rightarrow>
          (case subtasks_id sid (subtasks t) of
             None \<Rightarrow> (NotFound ''Subtask not found'', db)
           | Some _ \<Rightarrow>
               reply 200 (Some ''Subtask completion status toggled successfully'')
                 (save accepts
                    (t\<lparr>subtasks :=
                         modify_id (\<lambda>s. s\<lparr>subtask_is_completed := \<not> subtask_is_completed s\<rparr>)
                           sid (subtasks t)\<rparr>) db) db))"

subsection \<open>Listing: \<^verbatim>\<open>Task.findByUserWithFilters\<close> and \<^verbatim>\<open>getTasks\<close>\<close>

text \<open>
  The query string of \<^verbatim>\<open>GET /api/tasks\<close>; \<open>None\<close> is an absent parameter. \<open>q_page\<close> and
  \<open>q_limit\<close> hold what \<^verbatim>\<open>parseInt\<close> makes of the parameter: the route admits only
  decimal integers there, and zero is kept to follow the guards of the code. The two
  dates are already parsed.
\<close>

record task_query =
  q_page :: "nat option"
  q_limit :: "nat option"
  q_priority :: "string option"
  q_is_completed :: "string option"
  q_sort_by :: "string option"
  q_sort_order :: "string option"
  q_due_date_from :: "date option"
  q_due_date_to :: "date option"
  q_search :: "string option"

record filters =
  f_page :: nat
  f_limit :: nat
  f_sort_by :: "string option"
  f_sort_order :: string
  f_priority :: "string option"
  f_is_completed :: "bool option"
  f_due_date_from :: "date option"
  f_due_date_to :: "date option"
  f_search :: "string option"

text \<open>A string is truthy when it is not empty.\<close>

definition provided :: "string option \<Rightarrow> string option" where
  "provided v = (case v of None \<Rightarrow> None | Some s \<Rightarrow> if s = [] then None else Some s)"

text \<open>The filter object that \<^verbatim>\<open>getTasks\<close> builds, with the defaults of its destructuring.\<close>

definition build_filters :: "task_query \<Rightarrow> filters" where
  "build_filters q =
     \<lparr>f_page = (case q_page q of None \<Rightarrow> 1 | Some n \<Rightarrow> n),
      f_limit = (case q_limit q of None \<Rightarrow> 10 | Some n \<Rightarrow> n),
      f_sort_by = q_sort_by q,
      f_sort_order = (case q_sort_order q of None \<Rightarrow> ''desc'' | Some v \<Rightarrow> v),
      f_priority = provided (q_priority q),
      f_is_completed = map_option (\<lambda>v. v = ''true'') (q_is_completed q),
      f_due_date_from = q_due_date_from q,
      f_due_date_to = q_due_date_to q,
      f_search = provided (q_search q)\<rparr>"

text \<open>
  The query document of \<^verbatim>\<open>findByUserWithFilters\<close>. \<open>regex pat s\<close> is the database's
  case-insensitive \<^verbatim>\<open>$regex\<close> match of the pattern in the string. A condition on a path
  is not met by a document that lacks the path.
\<close>

definition matches :: "(string \<Rightarrow> string \<Rightarrow> bool) \<Rightarrow> object_id \<Rightarrow> filters \<Rightarrow> task \<Rightarrow> bool" where
  "matches regex uid f t =
     (user_id t = uid \<and>
      (case f_is_completed f of None \<Rightarrow> True | Some c \<Rightarrow> is_completed t = c) \<and>
      (case provided (f_priority f) of None \<Rightarrow> True | Some p \<Rightarrow> priority t = p) \<and>
      (case f_due_date_from f of None \<Rightarrow> True
       | Some lo \<Rightarrow> (case due_date t of None \<Rightarrow> False | Some d \<Rightarrow> lo \<le> d)) \<and>
      (case f_due_date_to f of None \<Rightarrow> True
       | Some hi \<Rightarrow> (case due_date t of None \<Rightarrow> False | Some d \<Rightarrow> d \<le> hi)) \<and>
      (case provided (f_search f) of None \<Rightarrow> True
       | Some pat \<Rightarrow>
           (case title t of None \<Rightarrow> False | Some s \<Rightarrow> regex pat s) \<or>
           (case description t of None \<Rightarrow> False | Some s \<Rightarrow> regex pat s)))"

text \<open>
  The sort document: the path and whether the direction is \<^verbatim>\<open>-1\<close>. An absent due date
  sorts before every date, and priorities compare as strings.
\<close>

datatype sort_path = By_due_date | By_priority | By_createdAt

definition sortOptions :: "filters \<Rightarrow> sort_path \<times> bool" where
  "sortOptions f =
     (case provided (f_sort_by f) of
        None \<Rightarrow> (By_createdAt, True)
      | Some by \<Rightarrow>
          if by = ''due_date'' then (By_due_date, f_sort_order f = ''desc'')
          else if by = ''priority'' then (By_priority, f_sort_order f = ''desc'')
          else if by = ''created_at'' then (By_createdAt, f_sort_order f = ''desc'')
          else (By_createdAt, True))"

fun date_le :: "date option \<Rightarrow> date option \<Rightarrow> bool" where
  "date_le None _ = True"
| "date_le (Some a) None = False"
| "date_le (Some a) (Some b) = (a \<le> b)"

fun path_le :: "sort_path \<Rightarrow> task \<Rightarrow> task \<Rightarrow> bool" where
  "path_le By_due_date a b = date_le (due_date a) (due_date b)"
| "path_le By_priority a b = (priority a \<le> priority b)"
| "path_le By_createdAt a b = (createdAt a \<le> createdAt b)"

text \<open>The sort of the query result; documents that compare equal keep their order.\<close>

fun insert_by :: "('a \<Rightarrow> 'a \<Rightarrow> bool) \<Rightarrow> 'a \<Rightarrow> 'a list \<Rightarrow> 'a list" where
  "insert_by le x [] = [x]"
| "insert_by le x (y # ys) = (if le x y then x # y # ys else y # insert_by le x ys)"

definition sort_by :: "('a \<Rightarrow> 'a \<Rightarrow> bool) \<Rightarrow> 'a list \<Rightarrow> 'a list" where
  "sort_by le xs = foldr (insert_by le) xs []"

definition sort_tasks :: "sort_path \<times> bool \<Rightarrow> task list \<Rightarrow> task list" where
  "sort_tasks opts xs =
     (case opts of
        (path, descending) \<Rightarrow>
          sort_by (if descending then (\<lambda>a b. path_le path b a) else path_le path) xs)"

definition findByUserWithFilters ::
  "(string \<Rightarrow> string \<Rightarrow> bool) \<Rightarrow> object_id \<Rightarrow> filters \<Rightarrow> store \<Rightarrow> task list" where
  "findByUserWithFilters regex uid f db =
     (let found = sort_tasks (sortOptions f) (filter (matches regex uid f) db)
      in if f_page f \<noteq> 0 \<and> f_limit f \<noteq> 0
         then take (f_limit f) (drop ((f_page f - 1) * f_limit f) found)
         else found)"

text \<open>
  \<^verbatim>\<open>Math.ceil(totalTasks / filters.limit)\<close> is a JavaScript number: a division by zero
  gives \<^verbatim>\<open>Infinity\<close>, or \<^verbatim>\<open>NaN\<close> for \<^verbatim>\<open>0 / 0\<close>.
\<close>

datatype js_number = Finite nat | Infinity | NaN

definition ceil_div :: "nat \<Rightarrow> nat \<Rightarrow> js_number" where
  "ceil_div n d =
     (if d = 0 then (if n = 0 then NaN else Infinity) else Finite ((n + d - 1) div d))"

fun less_number :: "nat \<Rightarrow> js_number \<Rightarrow> bool" where
  "less_number n (Finite m) = (n < m)"
| "less_number n Infinity = True"
| "less_number n NaN = False"

record pagination =
  currentPage :: nat
  totalPages :: js_number
  totalTasks :: nat
  hasNextPage :: bool
  hasPrevPage :: bool

text \<open>\<^verbatim>\<open>Task.countDocuments({ user_id: userId })\<close>.\<close>

definition countDocuments :: "object_id \<Rightarrow> store \<Rightarrow> nat" where
  "countDocuments uid db = length (filter (\<lambda>t. user_id t = uid) db)"

definition getTasks ::
  "(string \<Rightarrow> string \<Rightarrow> bool) \<Rightarrow> object_id \<Rightarrow> task_query \<Rightarrow> store \<Rightarrow> task list \<times> pagination" where
  "getTasks regex uid q db =
     (let f = build_filters q;
          tasks = findByUserWithFilters regex uid f db;
          total = countDocuments uid db;
          pages = ceil_div total (f_limit f)
      in (tasks,
          \<lparr>currentPage = f_page f, totalPages = pages, totalTasks = total,
           hasNextPage = less_number (f_page f) pages, hasPrevPage = (f_page f > 1)\<rparr>))"

section \<open>The notification service (utils/notificationService.js)\<close>

text \<open>
  The mail goes out through nodemailer, a library outside the repository. Its module
  object has the functions named below; any other property of it is \<^verbatim>\<open>undefined\<close>.
\<close>

definition nodemailer :: "string list" where
  "nodemailer = [''createTransport'', ''createTestAccount'', ''getTestMessageUrl'']"

text \<open>
  A transporter sends one mail: it gets the address and the task, of which the subject
  and the body of the mail are functions, and either delivers or throws. The parameter
  \<open>transport\<close> of the functions below is the transporter that the configured mail host
  would give.

  \<^verbatim>\<open>createTransporter\<close> of the service returns
  \<^verbatim>\<open>nodemailer.createTransporter({...})\<close>. The call of a property that is
  \<^verbatim>\<open>undefined\<close> throws a TypeError, which is \<open>None\<close> here.
\<close>

datatype transport_result = Delivered | Threw

definition createTransporter ::
  "(string \<Rightarrow> task \<Rightarrow> transport_result) \<Rightarrow> (string \<Rightarrow> task \<Rightarrow> transport_result) option" where
  "createTransporter transport =
     (if ''createTransporter'' \<in> set nodemailer then Some transport else None)"

text \<open>
  \<^verbatim>\<open>sendEmailNotification\<close>: the call of \<^verbatim>\<open>createTransporter()\<close> and the
  \<^verbatim>\<open>sendMail\<close> are both inside its \<^verbatim>\<open>try\<close>, and the \<^verbatim>\<open>catch\<close> reports
  \<^verbatim>\<open>success: false\<close>. The result here is the \<^verbatim>\<open>success\<close> field.
\<close>

definition sendEmailNotification ::
  "(string \<Rightarrow> task \<Rightarrow> transport_result) \<Rightarrow> string \<Rightarrow> task \<Rightarrow> bool" where
  "sendEmailNotification transport to t =
     (case createTransporter transport of
        None \<Rightarrow> False
      | Some transporter \<Rightarrow>
          (case transporter to t of Delivered \<Rightarrow> True | Threw \<Rightarrow> False))"

text \<open>
  \<^verbatim>\<open>task.user_id && task.user_id.email\<close> after \<^verbatim>\<open>populate("user_id", "email")\<close>:
  \<open>email_of\<close> is the users collection, from an \<^verbatim>\<open>_id\<close> to the email of that user.
\<close>

definition recipient :: "(object_id \<Rightarrow> string option) \<Rightarrow> task \<Rightarrow> string option" where
  "recipient email_of t = provided (email_of (user_id t))"

text \<open>The query of the sweep: due within the next 24 hours, not completed, not notified.\<close>

definition due_soon :: "date \<Rightarrow> task \<Rightarrow> bool" where
  "due_soon now t =
     ((case due_date t of
         None \<Rightarrow> False
       | Some d \<Rightarrow> now \<le> d \<and> d \<le> now + 24 * 60 * 60 * 1000) \<and>
      \<not> is_completed t \<and> \<not> notification_sent t)"

text \<open>
  The loop over the tasks found. The result lists the tasks handed to
  \<^verbatim>\<open>sendEmailNotification\<close>, the tasks whose send reported success, and the collection
  afterwards. A \<^verbatim>\<open>save()\<close> that throws leaves the loop: the only \<^verbatim>\<open>catch\<close> is the one
  around the whole function body, and it swallows the error.
\<close>

fun notify_loop ::
  "(task \<Rightarrow> bool) \<Rightarrow> (string \<Rightarrow> task \<Rightarrow> transport_result) \<Rightarrow> (object_id \<Rightarrow> string option) \<Rightarrow>
     task list \<Rightarrow> store \<Rightarrow> object_id list \<times> object_id list \<times> store" where
  "notify_loop accepts transport email_of [] db = ([], [], db)"
| "notify_loop accepts transport email_of (t # ts) db =
     (case recipient email_of t of
        None \<Rightarrow> notify_loop accepts transport email_of ts db
      | Some to \<Rightarrow>
          if sendEmailNotification transport to t then
            (case save accepts (t\<lparr>notification_sent := True\<rparr>) db of
               Inl e \<Rightarrow> ([task_id t], [task_id t], db)
             | Inr (t', db') \<Rightarrow>
                 (case notify_loop accepts transport email_of ts db' of
                    (attempted, emailed, db'') \<Rightarrow>
                      (task_id t # attempted, task_id t # emailed, db'')))
          else
            (case notify_loop accepts transport email_of ts db of
               (attempted, emailed, db'') \<Rightarrow> (task_id t # attempted, emailed, db'')))"

definition checkAndSendNotifications ::
  "(task \<Rightarrow> bool) \<Rightarrow> (string \<Rightarrow> task \<Rightarrow> transport_result) \<Rightarrow> (object_id \<Rightarrow> string option) \<Rightarrow>
     date \<Rightarrow> store \<Rightarrow> object_id list \<times> object_id list \<times> store" where
  "checkAndSendNotifications accepts transport email_of now db =
     notify_loop accepts transport email_of (filter (due_soon now) db) db"

text \<open>\<^verbatim>\<open>Task.findOverdueTasks\<close> of the model.\<close>

definition findOverdueTasks :: "date \<Rightarrow> store \<Rightarrow> task list" where
  "findOverdueTasks now db =
     filter (\<lambda>t. (case due_date t of None \<Rightarrow> False | Some d \<Rightarrow> d < now) \<and>
                 \<not> is_completed t \<and> \<not> notification_sent t) db"

text \<open>The send for the task reports success: the task has a recipient and the mail went out.\<close>

definition mailed ::
  "(string \<Rightarrow> task \<Rightarrow> transport_result) \<Rightarrow> (object_id \<Rightarrow> string option) \<Rightarrow> task \<Rightarrow> bool" where
  "mailed transport email_of t =
     (case recipient email_of t of None \<Rightarrow> False | Some to \<Rightarrow> sendEmailNotification transport to t)"

section \<open>Scenarios and sample documents\<close>

text \<open>A database that accepts every write.\<close>

definition accept_all :: "task \<Rightarrow> bool" where
  "accept_all t = True"

text \<open>A client that toggles the subtasks \<open>sids\<close> of one task, one request after the other.\<close>

definition toggleSubtasks ::
  "(task \<Rightarrow> bool) \<Rightarrow> object_id \<Rightarrow> object_id \<Rightarrow> object_id list \<Rightarrow> store \<Rightarrow> store" where
  "toggleSubtasks accepts tid uid sids db =
     foldl (\<lambda>d sid. snd (toggleSubtaskCompletion accepts tid sid uid d)) db sids"

definition report_task :: task where
  "report_task =
     \<lparr>task_id = 1, user_id = 7, title = Some ''Write report'', description = None,
      is_completed = False, priority = ''Low'', due_date = None,
      subtasks = [\<lparr>subtask_id = 11, subtask_title = Some ''Draft'', subtask_is_completed = True\<rparr>,
                  \<lparr>subtask_id = 12, subtask_title = Some ''Review'', subtask_is_completed = False\<rparr>],
      notification_sent = False, createdAt = 0\<rparr>"

definition report_done :: task where
  "report_done =
     \<lparr>task_id = 1, user_id = 7, title = Some ''Write report'', description = None,
      is_completed = True, priority = ''Low'', due_date = None,
      subtasks = [\<lparr>subtask_id = 11, subtask_title = Some ''Draft'', subtask_is_completed = True\<rparr>,
                  \<lparr>subtask_id = 12, subtask_title = Some ''Review'', subtask_is_completed = True\<rparr>],
      notification_sent = False, createdAt = 0\<rparr>"


definition reschedule :: task_patch where
  "reschedule =
     \<lparr>new_title = None, new_description = None, new_priority = None,
      new_due_date = Some (Some 5000), new_is_completed = None\<rparr>"


text \<open>The document that \<open>toggleSubtaskCompletion\<close> saves for the subtask \<open>sid\<close> of \<open>t\<close>.\<close>

definition toggled :: "object_id \<Rightarrow> task \<Rightarrow> task" where
  "toggled sid t =
     pre_save (t\<lparr>subtasks :=
        modify_id (\<lambda>s. s\<lparr>subtask_is_completed := \<not> subtask_is_completed s\<rparr>) sid (subtasks t)\<rparr>)"

text \<open>The subtasks with an id in \<open>S\<close> completed.\<close>

abbreviation (input) mark :: "object_id set \<Rightarrow> subtask \<Rightarrow> subtask" where
  "mark S s \<equiv> (if subtask_id s \<in> S then s\<lparr>subtask_is_completed := True\<rparr> else s)"

definition plan_task :: task where
  "plan_task =
     \<lparr>task_id = 3, user_id = 7, title = Some ''Plan trip'', description = Some ''Summer'',
      is_completed = False, priority = ''Medium'', due_date = None,
      subtasks = [\<lparr>subtask_id = 31, subtask_title = Some ''Book flight'', subtask_is_completed = False\<rparr>,
                  \<lparr>subtask_id = 32, subtask_title = Some ''Book hotel'', subtask_is_completed = False\<rparr>],
      notification_sent = False, createdAt = 0\<rparr>"

text \<open>
  A collection with fifteen tasks of owner 7 and one of owner 8, none of them completed,
  and two queries: page 2 of 10 without filters, and page 1 of 10 of the completed tasks.
  No search is made, so the pattern matcher is never asked.
\<close>

definition fifteen_tasks :: store where
  "fifteen_tasks =
     map (\<lambda>i. report_task\<lparr>task_id := i\<rparr>) [1..<16] @ [report_task\<lparr>task_id := 99, user_id := 8\<rparr>]"

definition no_match :: "string \<Rightarrow> string \<Rightarrow> bool" where
  "no_match pat s = False"

definition page_two :: task_query where
  "page_two =
     \<lparr>q_page = Some 2, q_limit = Some 10, q_priority = None, q_is_completed = None,
      q_sort_by = None, q_sort_order = None, q_due_date_from = None, q_due_date_to = None,
      q_search = None\<rparr>"

definition completed_page_one :: task_query where
  "completed_page_one =
     \<lparr>q_page = Some 1, q_limit = Some 10, q_priority = None, q_is_completed = Some ''true'',
      q_sort_by = None, q_sort_order = None, q_due_date_from = None, q_due_date_to = None,
      q_search = None\<rparr>"


text \<open>
  Two tasks of owner 7 that are due in an hour; the users collection with that owner;
  a mail host whose transporter would deliver every mail; a database that rejects the
  write of task 21.
\<close>

definition errand :: "object_id \<Rightarrow> task" where
  "errand i =
     \<lparr>task_id = i, user_id = 7, title = Some ''Errand'', description = None,
      is_completed = False, priority = ''Low'', due_date = Some 3600000,
      subtasks = [], notification_sent = False, createdAt = 0\<rparr>"

definition two_due :: store where
  "two_due = [errand 21, errand 22]"

definition one_user :: "object_id \<Rightarrow> string option" where
  "one_user u = (if u = 7 then Some ''ann@example.org'' else None)"

definition deliver_all :: "string \<Rightarrow> task \<Rightarrow> transport_result" where
  "deliver_all to t = Delivered"

definition reject_first :: "task \<Rightarrow> bool" where
  "reject_first t = (task_id t \<noteq> 21)"

section \<open>Properties\<close>

subsection \<open>Auxiliary facts\<close>

lemmas run_defs =
  findOne_def subtasks_id_def pull_def reply_def save_def create_def Let_def
  validate_def title_ok_def description_ok_def priority_ok_def due_date_ok_def
  subtask_ok_def pre_save_def trim_def is_space_def

lemma filter_length_all: "(length (filter P xs) = length xs) = list_all P xs"
proof (cases "list_all P xs")
  case True
  then have "filter P xs = xs" by (simp add: list_all_iff)
  with True show ?thesis by simp
next
  case False
  then obtain x where "x \<in> set xs" "\<not> P x" by (auto simp: list_all_iff)
  then have "length (filter P xs) < length xs" by (rule length_filter_less)
  with False show ?thesis by simp
qed

lemma pre_save_eq:
  "pre_save t =
     t\<lparr>is_completed := is_completed t \<or> (subtasks t \<noteq> [] \<and> list_all subtask_is_completed (subtasks t))\<rparr>"
  by (cases "subtasks t = []") (auto simp: pre_save_def Let_def filter_length_all)

lemma findOne_SomeD:
  "findOne tid uid db = Some t \<Longrightarrow> task_id t = tid \<and> user_id t = uid \<and> t \<in> set db"
  unfolding findOne_def by (induction db) (auto split: if_splits)

lemma findOne_updateOne:
  "findOne tid uid db = Some t \<Longrightarrow> task_id t' = tid \<Longrightarrow> user_id t' = uid \<Longrightarrow>
   findOne tid uid (updateOne t' db) = Some t'"
  unfolding findOne_def by (induction db) (auto split: if_splits)

lemma save_InrD:
  "save accepts t db = Inr (t', db') \<Longrightarrow>
   t' = pre_save t \<and> db' = updateOne (pre_save t) db \<and> validate None t \<and> accepts (pre_save t)"
  by (auto simp: save_def Let_def split: if_splits)

lemma reply_SuccessD:
  "reply status message r db = (Success st m (Some t'), db') \<Longrightarrow> r = Inr (t', db')"
  by (cases r) (auto simp: reply_def split: save_error.splits prod.splits elim: errorHandler.elims)

lemma saved_stored:
  assumes "findOne tid uid db = Some t" "task_id u = task_id t" "user_id u = user_id t"
    and "reply status message (save accepts u db) db = (Success st m (Some t'), db')"
  shows "findOne (task_id t') (user_id t') db' = Some t' \<and> t' = pre_save u \<and>
         task_id t' = tid \<and> user_id t' = uid"
proof -
  from assms(4) have "save accepts u db = Inr (t', db')" by (rule reply_SuccessD)
  then have *: "t' = pre_save u" "db' = updateOne (pre_save u) db" by (auto dest: save_InrD)
  from findOne_SomeD[OF assms(1)] assms(2,3)
  have "task_id (pre_save u) = tid" "user_id (pre_save u) = uid" by (simp_all add: pre_save_eq)
  with assms(1) * show ?thesis by (simp add: findOne_updateOne)
qed

lemma load_save_stored:
  assumes "findOne tid uid db = Some t"
    and "reply status message (save accepts u db) db = (Success st m (Some t'), db')"
    and "task_id u = task_id t" "user_id u = user_id t"
  shows "findOne (task_id t') (user_id t') db' = Some t' \<and> (\<exists>u. t' = pre_save u)"
  using saved_stored[OF assms(1,3,4,2)] by blast

lemma findOne_append_new:
  "tid \<notin> set (map task_id db) \<Longrightarrow> task_id t = tid \<Longrightarrow> user_id t = uid \<Longrightarrow>
   findOne tid uid (db @ [t]) = Some t"
  unfolding findOne_def by (induction db) auto

lemma create_InrD:
  "create accepts now t db = Inr (t', db') \<Longrightarrow>
   t' = pre_save t \<and> db' = db @ [pre_save t] \<and> task_id (pre_save t) \<notin> set (map task_id db)"
  by (auto simp: create_def Let_def split: if_splits)

lemma createTask_stored:
  assumes "createTask accepts now new_id uid b db = (Success st m (Some t'), db')"
  shows "findOne (task_id t') (user_id t') db' = Some t' \<and> (\<exists>u. t' = pre_save u)"
proof -
  from assms have "create accepts now (new_task now new_id uid b) db = Inr (t', db')"
    unfolding createTask_def by (rule reply_SuccessD)
  from create_InrD[OF this] show ?thesis
    by (auto intro: findOne_append_new)
qed

lemma updateTask_stored:
  assumes "updateTask accepts tid uid p db = (Success st m (Some t'), db')"
  shows "findOne (task_id t') (user_id t') db' = Some t' \<and> (\<exists>u. t' = pre_save u)"
proof (cases "findOne tid uid db")
  case None
  with assms show ?thesis by (simp add: updateTask_def)
next
  case (Some t)
  have ids: "task_id (apply_patch p t) = task_id t" "user_id (apply_patch p t) = user_id t"
    by (simp_all add: apply_patch_def Let_def split: option.splits)
  from assms Some
  have "reply 200 (Some ''Task updated successfully'') (save accepts (apply_patch p t) db) db
          = (Success st m (Some t'), db')"
    by (simp add: updateTask_def)
  from saved_stored[OF Some ids this] show ?thesis by blast
qed

lemma addSubtask_stored:
  assumes "addSubtask accepts new_id tid uid ttl done db = (Success st m (Some t'), db')"
  shows "findOne (task_id t') (user_id t') db' = Some t' \<and> (\<exists>u. t' = pre_save u)"
proof (cases "findOne tid uid db")
  case None
  with assms show ?thesis by (simp add: addSubtask_def)
next
  case (Some t)
  from assms Some have "reply 201 (Some ''Subtask added successfully'') (save accepts (t\<lparr>subtasks := subtasks t @ [\<lparr>subtask_id = new_id, subtask_title = map_option trim ttl, subtask_is_completed = (case done of None \<Rightarrow> False | Some c \<Rightarrow> c)\<rparr>]\<rparr>) db) db
       = (Success st m (Some t'), db')"
    by (auto simp: addSubtask_def Task_addSubtask_def)
  from load_save_stored[OF Some this] show ?thesis by simp
qed

lemma updateSubtask_stored:
  assumes "updateSubtask accepts tid sid uid ttl done db = (Success st m (Some t'), db')"
  shows "findOne (task_id t') (user_id t') db' = Some t' \<and> (\<exists>u. t' = pre_save u)"
proof (cases "findOne tid uid db")
  case None
  with assms show ?thesis by (simp add: updateSubtask_def)
next
  case (Some t)
  from assms Some have "reply 200 (Some ''Subtask updated successfully'') (save accepts (t\<lparr>subtasks := modify_id (apply_updateData ttl done) sid (subtasks t)\<rparr>) db) db
       = (Success st m (Some t'), db')"
    by (cases "subtasks_id sid (subtasks t)")
      (auto simp: updateSubtask_def Task_updateSubtask_def)
  from load_save_stored[OF Some this] show ?thesis by simp
qed

lemma deleteSubtask_stored:
  assumes "deleteSubtask accepts tid sid uid db = (Success st m (Some t'), db')"
  shows "findOne (task_id t') (user_id t') db' = Some t' \<and> (\<exists>u. t' = pre_save u)"
proof (cases "findOne tid uid db")
  case None
  with assms show ?thesis by (simp add: deleteSubtask_def)
next
  case (Some t)
  from assms Some have "reply 200 (Some ''Subtask deleted successfully'') (save accepts (t\<lparr>subtasks := pull sid (subtasks t)\<rparr>) db) db
       = (Success st m (Some t'), db')"
    by (cases "subtasks_id sid (subtasks t)")
      (auto simp: deleteSubtask_def Task_removeSubtask_def)
  from load_save_stored[OF Some this] show ?thesis by simp
qed

lemma toggleTaskCompletion_stored:
  assumes "toggleTaskCompletion accepts tid uid db = (Success st m (Some t'), db')"
  shows "findOne (task_id t') (user_id t') db' = Some t' \<and> (\<exists>u. t' = pre_save u)"
proof (cases "findOne tid uid db")
  case None
  with assms show ?thesis by (simp add: toggleTaskCompletion_def)
next
  case (Some t)
  from assms Some have "reply 200 None (save accepts (t\<lparr>is_completed := \<not> is_completed t\<rparr>) db) db = (Success st m (Some t'), db')"
    by (auto simp: toggleTaskCompletion_def)
  from load_save_stored[OF Some this] show ?thesis by simp
qed

lemma toggleSubtaskCompletion_stored:
  assumes "toggleSubtaskCompletion accepts tid sid uid db = (Success st m (Some t'), db')"
  shows "findOne (task_id t') (user_id t') db' = Some t' \<and> (\<exists>u. t' = pre_save u)"
proof (cases "findOne tid uid db")
  case None
  with assms show ?thesis by (simp add: toggleSubtaskCompletion_def)
next
  case (Some t)
  from assms Some have "reply 200 (Some ''Subtask completion status toggled successfully'') (save accepts (t\<lparr>subtasks := modify_id (\<lambda>s. s\<lparr>subtask_is_completed := \<not> subtask_is_completed s\<rparr>) sid (subtasks t)\<rparr>) db) db
       = (Success st m (Some t'), db')"
    by (cases "subtasks_id sid (subtasks t)") (auto simp: toggleSubtaskCompletion_def)
  from load_save_stored[OF Some this] show ?thesis by simp
qed

lemma save_cases:
  "save accepts u db = Inr (pre_save u, updateOne (pre_save u) db) \<or>
   save accepts u db = Inl ValidationError \<or> save accepts u db = Inl WriteRejected"
  by (simp add: save_def Let_def)

lemma reply_save_stored:
  assumes "findOne tid uid db = Some t" "task_id u = task_id t" "user_id u = user_id t"
    and "reply status message (save accepts u db) db = (r, db')"
  shows "(r = Success status message (Some (pre_save u)) \<and> findOne tid uid db' = Some (pre_save u))
         \<or> ((r = BadRequest \<or> r = ServerError) \<and> db' = db)"
proof -
  from findOne_SomeD[OF assms(1)] assms(2,3)
  have "task_id (pre_save u) = tid" "user_id (pre_save u) = uid" by (simp_all add: pre_save_eq)
  with assms(1) have "findOne tid uid (updateOne (pre_save u) db) = Some (pre_save u)"
    by (simp add: findOne_updateOne)
  with save_cases[of accepts u db] assms(4) show ?thesis
    by (auto simp: reply_def)
qed

lemma findOne_None:
  "\<forall>t\<in>set db. task_id t = tid \<longrightarrow> user_id t \<noteq> uid \<Longrightarrow> findOne tid uid db = None"
  by (auto simp: findOne_def find_None_iff)

lemma save_ok:
  "validate None u \<Longrightarrow> accepts (pre_save u) \<Longrightarrow>
   save accepts u db = Inr (pre_save u, updateOne (pre_save u) db)"
  by (simp add: save_def Let_def)

lemma validate_pre_save: "validate n (pre_save u) = validate n u"
  by (simp add: pre_save_eq validate_def)

lemma modify_id_map:
  "distinct (map subtask_id ss) \<Longrightarrow> (\<And>s. subtask_id (f s) = subtask_id s) \<Longrightarrow>
   modify_id f sid ss = map (\<lambda>s. if subtask_id s = sid then f s else s) ss"
proof (induction ss)
  case Nil
  then show ?case by simp
next
  case (Cons s ss)
  show ?case
  proof (cases "subtask_id s = sid")
    case True
    with Cons.prems(1) have "sid \<notin> subtask_id ` set ss" by simp
    then have "\<forall>x\<in>set ss. subtask_id x \<noteq> sid" by blast
    then have "map (\<lambda>s. if subtask_id s = sid then f s else s) ss = ss"
      by (simp add: map_idI)
    with True show ?thesis by simp
  next
    case False
    with Cons show ?thesis by simp
  qed
qed

lemma list_all_modify_id:
  "list_all P ss \<Longrightarrow> (\<And>s. P s \<Longrightarrow> P (f s)) \<Longrightarrow> list_all P (modify_id f sid ss)"
  by (induction ss) auto

lemma subtasks_id_Some:
  "sid \<in> subtask_id ` set ss \<Longrightarrow> \<exists>s. subtasks_id sid ss = Some s"
  unfolding subtasks_id_def by (induction ss) auto

lemma validate_toggled:
  "validate None t \<Longrightarrow> validate None (toggled sid t)"
  unfolding toggled_def validate_pre_save
  by (auto simp: validate_def subtask_ok_def intro: list_all_modify_id)

lemma toggle_step:
  assumes "findOne tid uid db = Some t" "validate None t" "\<forall>x. accepts x"
    and "sid \<in> subtask_id ` set (subtasks t)"
  shows "toggleSubtaskCompletion accepts tid sid uid db =
           (Success 200 (Some ''Subtask completion status toggled successfully'')
              (Some (toggled sid t)), updateOne (toggled sid t) db)"
    and "findOne tid uid (updateOne (toggled sid t) db) = Some (toggled sid t)"
proof -
  from subtasks_id_Some[OF assms(4)] obtain s where s: "subtasks_id sid (subtasks t) = Some s" ..
  let ?u = "t\<lparr>subtasks :=
        modify_id (\<lambda>s. s\<lparr>subtask_is_completed := \<not> subtask_is_completed s\<rparr>) sid (subtasks t)\<rparr>"
  have "validate None ?u"
    using assms(2) by (auto simp: validate_def subtask_ok_def intro: list_all_modify_id)
  with assms(3) have "save accepts ?u db = Inr (pre_save ?u, updateOne (pre_save ?u) db)"
    by (simp add: save_ok)
  with assms(1) s show "toggleSubtaskCompletion accepts tid sid uid db =
           (Success 200 (Some ''Subtask completion status toggled successfully'')
              (Some (toggled sid t)), updateOne (toggled sid t) db)"
    by (simp add: toggleSubtaskCompletion_def reply_def toggled_def)
  from findOne_SomeD[OF assms(1)]
  have "task_id (toggled sid t) = tid" "user_id (toggled sid t) = uid"
    by (simp_all add: toggled_def pre_save_eq)
  with assms(1) show "findOne tid uid (updateOne (toggled sid t) db) = Some (toggled sid t)"
    by (simp add: findOne_updateOne)
qed

lemma subtasks_toggled:
  assumes "distinct (map subtask_id (subtasks t))"
  shows "subtasks (toggled sid t) =
         map (\<lambda>s. if subtask_id s = sid then s\<lparr>subtask_is_completed := \<not> subtask_is_completed s\<rparr>
                   else s) (subtasks t)"
  using assms by (simp add: toggled_def pre_save_eq modify_id_map)

lemma is_completed_toggled:
  "is_completed (toggled sid t) =
     (is_completed t \<or> (subtasks (toggled sid t) \<noteq> [] \<and>
         list_all subtask_is_completed (subtasks (toggled sid t))))"
  by (simp add: toggled_def pre_save_eq)

lemma toggleSubtasks_Cons:
  "toggleSubtasks accepts tid uid (sid # sids) db =
     toggleSubtasks accepts tid uid sids (snd (toggleSubtaskCompletion accepts tid sid uid db))"
  by (simp add: toggleSubtasks_def)

lemma toggleSubtasks_spec:
  assumes acc: "\<forall>x. accepts x"
  shows "findOne tid uid db = Some t \<Longrightarrow> validate None t \<Longrightarrow>
     distinct (map subtask_id (subtasks t)) \<Longrightarrow> distinct sids \<Longrightarrow>
     set sids \<subseteq> subtask_id ` set (subtasks t) \<Longrightarrow>
     (\<forall>s\<in>set (subtasks t). subtask_id s \<in> set sids \<longrightarrow> \<not> subtask_is_completed s) \<Longrightarrow>
     \<exists>t'. findOne tid uid (toggleSubtasks accepts tid uid sids db) = Some t' \<and>
          subtasks t' = map (mark (set sids)) (subtasks t) \<and>
          is_completed t' =
            (is_completed t \<or> (sids \<noteq> [] \<and> list_all subtask_is_completed (subtasks t')))"
proof (induction sids arbitrary: db t)
  case Nil
  then show ?case by (simp add: toggleSubtasks_def)
next
  case (Cons sid sids)
  let ?t1 = "toggled sid t"
  let ?db1 = "updateOne ?t1 db"
  from Cons.prems have sid_in: "sid \<in> subtask_id ` set (subtasks t)" by simp
  from toggle_step[OF Cons.prems(1,2) acc sid_in]
  have run: "snd (toggleSubtaskCompletion accepts tid sid uid db) = ?db1"
    and found1: "findOne tid uid ?db1 = Some ?t1"
    by simp_all
  have sub1: "subtasks ?t1 = map (mark {sid}) (subtasks t)"
    unfolding subtasks_toggled[OF Cons.prems(3)]
    using Cons.prems(6) by (intro map_cong) auto
  have ids1: "map subtask_id (subtasks ?t1) = map subtask_id (subtasks t)"
    unfolding sub1 by simp
  have open1: "\<forall>s\<in>set (subtasks ?t1). subtask_id s \<in> set sids \<longrightarrow> \<not> subtask_is_completed s"
    unfolding sub1 using Cons.prems(4,6) by auto
  from Cons.prems(5) have sub_ids: "set sids \<subseteq> subtask_id ` set (subtasks ?t1)"
    using ids1 by (metis list.set_map set_subset_Cons subset_trans)
  from Cons.prems(3) ids1 have dist1: "distinct (map subtask_id (subtasks ?t1))" by simp
  from Cons.prems(4) have dist_sids: "distinct sids" by simp
  from Cons.IH[OF found1 validate_toggled[OF Cons.prems(2)] dist1 dist_sids sub_ids open1]
  obtain t' where t': "findOne tid uid (toggleSubtasks accepts tid uid sids ?db1) = Some t'"
    "subtasks t' = map (mark (set sids)) (subtasks ?t1)"
    "is_completed t' =
       (is_completed ?t1 \<or> (sids \<noteq> [] \<and> list_all subtask_is_completed (subtasks t')))"
    by blast
  have sub': "subtasks t' = map (mark (set (sid # sids))) (subtasks t)"
    unfolding t'(2) sub1 by auto
  have nonempty: "subtasks ?t1 \<noteq> []" using sid_in sub1 by auto
  have mono: "list_all subtask_is_completed (subtasks ?t1) \<Longrightarrow>
              list_all subtask_is_completed (subtasks t')"
    unfolding t'(2) by (auto simp: list_all_iff)
  have last: "sids = [] \<Longrightarrow> subtasks t' = subtasks ?t1"
    unfolding t'(2) by (simp add: map_idI)
  have "is_completed t' =
          (is_completed t \<or> list_all subtask_is_completed (subtasks t'))"
    unfolding t'(3) is_completed_toggled[of sid t] using nonempty mono last by auto
  with t'(1) sub' run show ?case
    by (auto simp: toggleSubtasks_Cons)
qed

lemma subtasks_id_modify_id:
  "(\<And>s. subtask_id (f s) = subtask_id s) \<Longrightarrow>
   subtasks_id sid (modify_id f sid ss) = map_option f (subtasks_id sid ss)"
  unfolding subtasks_id_def by (induction ss) auto

lemma distinct_subset_length:
  assumes "distinct xs" "distinct ys" "set xs \<subseteq> set ys"
  shows "(set ys \<subseteq> set xs) = (length xs = length ys)"
proof
  assume "set ys \<subseteq> set xs"
  with assms(3) have "set xs = set ys" by blast
  with assms(1,2) show "length xs = length ys" by (metis distinct_card)
next
  assume "length xs = length ys"
  with assms(1,2) have "card (set xs) = card (set ys)" by (simp add: distinct_card)
  with assms(3) have "set xs = set ys" by (simp add: card_subset_eq)
  then show "set ys \<subseteq> set xs" by simp
qed

lemma subtasks_id_append_new:
  "new_id \<notin> subtask_id ` set ss \<Longrightarrow> subtask_id s = new_id \<Longrightarrow>
   subtasks_id new_id (ss @ [s]) = Some s"
  unfolding subtasks_id_def by (induction ss) auto

lemma pull_append_new:
  "new_id \<notin> subtask_id ` set ss \<Longrightarrow> subtask_id s = new_id \<Longrightarrow> pull new_id (ss @ [s]) = ss"
  unfolding pull_def by (induction ss) auto

lemma length_insert_by: "length (insert_by le x xs) = Suc (length xs)"
  by (induction xs) auto

lemma length_sort_by: "length (sort_by le xs) = length xs"
  unfolding sort_by_def by (induction xs) (auto simp: length_insert_by)

lemma length_sort_tasks: "length (sort_tasks opts xs) = length xs"
  by (cases opts) (simp add: sort_tasks_def length_sort_by)

lemma ceil_div_ceiling:
  assumes "0 < d"
  shows "ceil_div n d = Finite (nat \<lceil>real n / real d\<rceil>)"
proof -
  let ?k = "(n + d - 1) div d"
  have 1: "n \<le> ?k * d"
  proof -
    have "n + d - 1 = ?k * d + (n + d - 1) mod d" by simp
    moreover have "(n + d - 1) mod d < d" using assms by simp
    ultimately show ?thesis using assms by linarith
  qed
  have 2: "?k * d < n + d"
  proof -
    have "?k * d \<le> n + d - 1" by simp
    with assms show ?thesis by linarith
  qed
  have "\<lceil>real n / real d\<rceil> = int ?k"
  proof (rule ceiling_unique)
    from 2 have "real (?k * d) < real (n + d)" by (simp only: of_nat_less_iff)
    then have "(real ?k - 1) * real d < real n" by (simp add: algebra_simps)
    with assms show "of_int (int ?k) - 1 < real n / real d"
      by (simp add: pos_less_divide_eq)
    from 1 have "real n \<le> real (?k * d)" by (simp only: of_nat_le_iff)
    with assms show "real n / real d \<le> of_int (int ?k)"
      by (simp add: pos_divide_le_eq)
  qed
  with assms show ?thesis by (simp add: ceil_div_def)
qed

lemma sendEmailNotification_fails: "sendEmailNotification transport to t = False"
  by (simp add: sendEmailNotification_def createTransporter_def nodemailer_def)

lemma not_mailed: "\<not> mailed transport email_of t"
  by (simp add: mailed_def sendEmailNotification_fails split: option.splits)

lemma notify_loop_run:
  "notify_loop accepts transport email_of ts db =
     (map task_id (filter (\<lambda>t. recipient email_of t \<noteq> None) ts), [], db)"
proof (induction ts)
  case Nil
  then show ?case by simp
next
  case (Cons t ts)
  then show ?case
    by (cases "recipient email_of t") (simp_all add: sendEmailNotification_fails)
qed

lemma sweep_run:
  "checkAndSendNotifications accepts transport email_of now db =
     (map task_id (filter (\<lambda>t. recipient email_of t \<noteq> None) (filter (due_soon now) db)),
      [], db)"
  by (simp only: checkAndSendNotifications_def notify_loop_run)


lemmas sweep_defs =
  checkAndSendNotifications_def due_soon_def recipient_def provided_def
  sendEmailNotification_def createTransporter_def nodemailer_def mailed_def
  findOverdueTasks_def errand_def two_due_def one_user_def deliver_all_def
  reject_first_def accept_all_def

subsection \<open>Completion derived from the subtasks\<close>

text \<open>
  C1. Whenever one of the writing requests (create, update, add, update or remove a
  subtask, toggle the task, toggle a subtask) answers with the saved task, that task is
  the one stored under its id and owner, and if its list of subtasks is not empty and
  all of them are completed, its \<open>is_completed\<close> is true.
\<close>

theorem saved_task_completion:
  assumes "r \<in> {createTask accepts now new_id uid b db,
                updateTask accepts tid uid p db,
                addSubtask accepts new_id tid uid ttl done db,
                updateSubtask accepts tid sid uid ttl' done' db,
                deleteSubtask accepts tid sid uid db,
                toggleTaskCompletion accepts tid uid db,
                toggleSubtaskCompletion accepts tid sid uid db}"
    and "r = (Success status message (Some t'), db')"
  shows "findOne (task_id t') (user_id t') db' = Some t' \<and>
         (subtasks t' \<noteq> [] \<and> list_all subtask_is_completed (subtasks t') \<longrightarrow> is_completed t')"
proof -
  from assms have "findOne (task_id t') (user_id t') db' = Some t' \<and> (\<exists>u. t' = pre_save u)"
    using createTask_stored updateTask_stored addSubtask_stored updateSubtask_stored
      deleteSubtask_stored toggleTaskCompletion_stored toggleSubtaskCompletion_stored
    by (elim insertE emptyE) metis+
  then show ?thesis by (auto simp: pre_save_eq)
qed

text \<open>The theorem at the request that completes the last open subtask of a task.\<close>

theorem saved_task_completion_witness:
  "toggleSubtaskCompletion accept_all 1 12 7 [report_task] =
     (Success 200 (Some ''Subtask completion status toggled successfully'') (Some report_done),
      [report_done])
   \<and> findOne 1 7 [report_done] = Some report_done
   \<and> subtasks report_done \<noteq> []
   \<and> list_all subtask_is_completed (subtasks report_done)
   \<and> is_completed report_done"
proof -
  have run: "toggleSubtaskCompletion accept_all 1 12 7 [report_task] =
     (Success 200 (Some ''Subtask completion status toggled successfully'') (Some report_done),
      [report_done])"
    by (simp add: toggleSubtaskCompletion_def run_defs accept_all_def report_task_def
        report_done_def)
  have sub: "subtasks report_done \<noteq> [] \<and> list_all subtask_is_completed (subtasks report_done)"
    by (simp add: report_done_def)
  have "findOne (task_id report_done) (user_id report_done) [report_done] = Some report_done \<and>
        (subtasks report_done \<noteq> [] \<and> list_all subtask_is_completed (subtasks report_done)
           \<longrightarrow> is_completed report_done)"
    by (rule saved_task_completion[where r = "toggleSubtaskCompletion accept_all 1 12 7 [report_task]"
          and accepts = accept_all and tid = 1 and sid = 12 and uid = 7 and db = "[report_task]",
          OF _ run]) simp
  with sub run show ?thesis by (simp add: report_done_def)
qed

text \<open>
  C10. For a stored task that is completed and whose subtasks (at least one) are all
  completed, neither \<open>toggleTaskCompletion\<close> nor an update with
  \<^verbatim>\<open>is_completed: false\<close> leaves an incomplete task in the store: the request fails and
  changes nothing, or it answers with the saved task, which is still completed and has
  the same subtasks.
\<close>

theorem completed_by_subtasks_stays_completed:
  assumes "findOne tid uid db = Some t"
    and "subtasks t \<noteq> []" and "list_all subtask_is_completed (subtasks t)"
    and "is_completed t"
    and "(r, db') \<in> {toggleTaskCompletion accepts tid uid db,
                      updateTask accepts tid uid (p\<lparr>new_is_completed := Some False\<rparr>) db}"
  shows "\<exists>t'. findOne tid uid db' = Some t' \<and> is_completed t' \<and> subtasks t' = subtasks t \<and>
              (r = BadRequest \<or> r = ServerError \<or> (\<exists>status message. r = Success status message (Some t')))"
proof -
  from assms(5) consider
      (toggle) "toggleTaskCompletion accepts tid uid db = (r, db')"
    | (update) "updateTask accepts tid uid (p\<lparr>new_is_completed := Some False\<rparr>) db = (r, db')"
    by auto
  then show ?thesis
  proof cases
    case toggle
    let ?u = "t\<lparr>is_completed := \<not> is_completed t\<rparr>"
    from toggle assms(1) have "reply 200 None (save accepts ?u db) db = (r, db')"
      by (simp add: toggleTaskCompletion_def)
    from reply_save_stored[OF assms(1) _ _ this] assms(1-4) show ?thesis
      by (auto simp: pre_save_eq)
  next
    case update
    let ?u = "apply_patch (p\<lparr>new_is_completed := Some False\<rparr>) t"
    have ids: "task_id ?u = task_id t" "user_id ?u = user_id t" "subtasks ?u = subtasks t"
      by (simp_all add: apply_patch_def Let_def split: option.splits)
    from update assms(1)
    have "reply 200 (Some ''Task updated successfully'') (save accepts ?u db) db = (r, db')"
      by (simp add: updateTask_def)
    from reply_save_stored[OF assms(1) ids(1,2) this] assms(1-4) ids(3) show ?thesis
      by (auto simp: pre_save_eq)
  qed
qed

text \<open>The theorem at the toggle of a task whose two subtasks are completed.\<close>

theorem completed_by_subtasks_stays_completed_witness:
  "findOne 1 7 [report_done] = Some report_done
   \<and> subtasks report_done \<noteq> []
   \<and> list_all subtask_is_completed (subtasks report_done)
   \<and> is_completed report_done
   \<and> toggleTaskCompletion accept_all 1 7 [report_done] =
       (Success 200 None (Some report_done), [report_done])
   \<and> (\<exists>t'. findOne 1 7 (snd (toggleTaskCompletion accept_all 1 7 [report_done])) = Some t' \<and>
             is_completed t' \<and> subtasks t' = subtasks report_done)"
proof -
  have found: "findOne 1 7 [report_done] = Some report_done"
    by (simp add: findOne_def report_done_def)
  have sub: "subtasks report_done \<noteq> []" "list_all subtask_is_completed (subtasks report_done)"
    "is_completed report_done"
    by (simp_all add: report_done_def)
  have run: "(fst (toggleTaskCompletion accept_all 1 7 [report_done]),
              snd (toggleTaskCompletion accept_all 1 7 [report_done]))
      \<in> {toggleTaskCompletion accept_all 1 7 [report_done],
          updateTask accept_all 1 7 (reschedule\<lparr>new_is_completed := Some False\<rparr>) [report_done]}"
    by simp
  from completed_by_subtasks_stays_completed[OF found sub run]
  have kept: "\<exists>t'. findOne 1 7 (snd (toggleTaskCompletion accept_all 1 7 [report_done])) = Some t' \<and>
             is_completed t' \<and> subtasks t' = subtasks report_done"
    by blast
  have "toggleTaskCompletion accept_all 1 7 [report_done] =
       (Success 200 None (Some report_done), [report_done])"
    by (simp add: toggleTaskCompletion_def run_defs accept_all_def report_done_def)
  with found sub kept show ?thesis by blast
qed

text \<open>
  C7. Take a stored, valid task with at least one subtask, distinct subtask ids, and a
  database that accepts the writes. If the task and all its subtasks are incomplete and
  a client toggles distinct subtasks of it one request after the other, then after these
  requests the stored task is completed exactly when every subtask has been toggled,
  that is, not after any of the first \<open>n - 1\<close> toggles and after the \<open>n\<close>-th, in
  whatever order. If instead the task and all its subtasks are completed, the toggle of
  one subtask succeeds, leaves that subtask incomplete, and the task stays completed.
\<close>

theorem subtasks_completed_one_by_one:
  assumes "findOne tid uid db = Some t" and "validate None t" and "\<forall>x. accepts x"
    and "distinct (map subtask_id (subtasks t))" and "subtasks t \<noteq> []"
  shows "(\<not> is_completed t \<and> (\<forall>s\<in>set (subtasks t). \<not> subtask_is_completed s) \<and>
          distinct sids \<and> set sids \<subseteq> subtask_id ` set (subtasks t)
          \<longrightarrow> (\<exists>t'. findOne tid uid (toggleSubtasks accepts tid uid sids db) = Some t' \<and>
                    is_completed t' = (length sids = length (subtasks t)) \<and>
                    (\<forall>s'\<in>set (subtasks t'). subtask_is_completed s' = (subtask_id s' \<in> set sids))))
       \<and> (is_completed t \<and> list_all subtask_is_completed (subtasks t) \<and>
          sid \<in> subtask_id ` set (subtasks t)
          \<longrightarrow> (\<exists>t' s'. toggleSubtaskCompletion accepts tid sid uid db =
                        (Success 200 (Some ''Subtask completion status toggled successfully'')
                           (Some t'), updateOne t' db) \<and>
                      findOne tid uid (updateOne t' db) = Some t' \<and>
                      subtasks_id sid (subtasks t') = Some s' \<and> \<not> subtask_is_completed s' \<and>
                      is_completed t'))"
proof (intro conjI impI)
  assume a: "\<not> is_completed t \<and> (\<forall>s\<in>set (subtasks t). \<not> subtask_is_completed s) \<and>
          distinct sids \<and> set sids \<subseteq> subtask_id ` set (subtasks t)"
  then have open_all:
    "\<forall>s\<in>set (subtasks t). subtask_id s \<in> set sids \<longrightarrow> \<not> subtask_is_completed s"
    and d: "distinct sids" and ss: "set sids \<subseteq> subtask_id ` set (subtasks t)"
    by blast+
  from toggleSubtasks_spec[OF assms(3) assms(1,2,4) d ss open_all]
  obtain t' where t'0: "findOne tid uid (toggleSubtasks accepts tid uid sids db) = Some t'"
    "subtasks t' = map (mark (set sids)) (subtasks t)"
    "is_completed t' =
       (is_completed t \<or> (sids \<noteq> [] \<and> list_all subtask_is_completed (subtasks t')))"
    by blast
  with a have t': "findOne tid uid (toggleSubtasks accepts tid uid sids db) = Some t'"
    "subtasks t' = map (mark (set sids)) (subtasks t)"
    "is_completed t' = (sids \<noteq> [] \<and> list_all subtask_is_completed (subtasks t'))"
    by simp_all
  have each: "\<forall>s'\<in>set (subtasks t'). subtask_is_completed s' = (subtask_id s' \<in> set sids)"
    unfolding t'(2) using a by auto
  have "list_all subtask_is_completed (subtasks t') =
          (subtask_id ` set (subtasks t) \<subseteq> set sids)"
    unfolding t'(2) using a by (auto simp: list_all_iff)
  also have "\<dots> = (length sids = length (subtasks t))"
    using distinct_subset_length[of sids "map subtask_id (subtasks t)"] a assms(4) by simp
  finally have "list_all subtask_is_completed (subtasks t') = (length sids = length (subtasks t))" .
  with t'(3) assms(5) have "is_completed t' = (length sids = length (subtasks t))" by auto
  with t'(1) each
  show "\<exists>t'. findOne tid uid (toggleSubtasks accepts tid uid sids db) = Some t' \<and>
             is_completed t' = (length sids = length (subtasks t)) \<and>
             (\<forall>s'\<in>set (subtasks t'). subtask_is_completed s' = (subtask_id s' \<in> set sids))"
    by blast
next
  assume b: "is_completed t \<and> list_all subtask_is_completed (subtasks t) \<and>
          sid \<in> subtask_id ` set (subtasks t)"
  then have sid_in: "sid \<in> subtask_id ` set (subtasks t)" by simp
  from subtasks_id_Some[OF sid_in] obtain s where s: "subtasks_id sid (subtasks t) = Some s" ..
  then have "s \<in> set (subtasks t)"
    by (auto simp: subtasks_id_def find_Some_iff)
  with b have compl: "subtask_is_completed s" by (simp add: list_all_iff)
  have "subtasks_id sid (subtasks (toggled sid t)) =
          Some (s\<lparr>subtask_is_completed := \<not> subtask_is_completed s\<rparr>)"
    by (simp add: toggled_def pre_save_eq subtasks_id_modify_id s)
  moreover have "is_completed (toggled sid t)"
    using b by (simp add: is_completed_toggled)
  ultimately show "\<exists>t' s'. toggleSubtaskCompletion accepts tid sid uid db =
                        (Success 200 (Some ''Subtask completion status toggled successfully'')
                           (Some t'), updateOne t' db) \<and>
                      findOne tid uid (updateOne t' db) = Some t' \<and>
                      subtasks_id sid (subtasks t') = Some s' \<and> \<not> subtask_is_completed s' \<and>
                      is_completed t'"
    using toggle_step[OF assms(1,2,3) sid_in] compl by auto
qed

text \<open>
  The theorem at a task with two open subtasks, after one toggle and after both, and at
  a task with two completed subtasks, one of which is toggled back.
\<close>

theorem subtasks_completed_one_by_one_witness:
  "findOne 3 7 [plan_task] = Some plan_task
   \<and> validate None plan_task \<and> (\<forall>x. accept_all x)
   \<and> distinct (map subtask_id (subtasks plan_task)) \<and> subtasks plan_task \<noteq> []
   \<and> \<not> is_completed plan_task \<and> filter subtask_is_completed (subtasks plan_task) = []
   \<and> (\<exists>t'. findOne 3 7 (toggleSubtasks accept_all 3 7 [32] [plan_task]) = Some t' \<and>
             \<not> is_completed t')
   \<and> (\<exists>t'. findOne 3 7 (toggleSubtasks accept_all 3 7 [32, 31] [plan_task]) = Some t' \<and>
             is_completed t')
   \<and> findOne 1 7 [report_done] = Some report_done
   \<and> is_completed report_done \<and> list_all subtask_is_completed (subtasks report_done)
   \<and> (\<exists>t' s'. findOne 1 7 (snd (toggleSubtaskCompletion accept_all 1 11 7 [report_done])) = Some t' \<and>
                subtasks_id 11 (subtasks t') = Some s' \<and> \<not> subtask_is_completed s' \<and>
                is_completed t')"
proof -
  have acc: "\<forall>x. accept_all x" by (simp add: accept_all_def)
  have found: "findOne 3 7 [plan_task] = Some plan_task"
    by (simp add: findOne_def plan_task_def)
  have valid: "validate None plan_task"
    by (simp add: run_defs plan_task_def)
  have dist: "distinct (map subtask_id (subtasks plan_task))" and ne: "subtasks plan_task \<noteq> []"
    and opn: "\<not> is_completed plan_task" "filter subtask_is_completed (subtasks plan_task) = []"
    by (simp_all add: plan_task_def)
  note one_by_one = subtasks_completed_one_by_one[OF found valid acc dist ne, THEN conjunct1, THEN mp]
  have "\<exists>t'. findOne 3 7 (toggleSubtasks accept_all 3 7 [32] [plan_task]) = Some t' \<and>
             is_completed t' = (length [32 :: nat] = length (subtasks plan_task)) \<and>
             (\<forall>s'\<in>set (subtasks t'). subtask_is_completed s' = (subtask_id s' \<in> set [32]))"
    by (rule one_by_one) (simp add: plan_task_def)
  then have first: "\<exists>t'. findOne 3 7 (toggleSubtasks accept_all 3 7 [32] [plan_task]) = Some t' \<and>
             \<not> is_completed t'"
    by (auto simp: plan_task_def)
  have "\<exists>t'. findOne 3 7 (toggleSubtasks accept_all 3 7 [32, 31] [plan_task]) = Some t' \<and>
             is_completed t' = (length [32, 31 :: nat] = length (subtasks plan_task)) \<and>
             (\<forall>s'\<in>set (subtasks t'). subtask_is_completed s' = (subtask_id s' \<in> set [32, 31]))"
    by (rule one_by_one) (simp add: plan_task_def)
  then have second: "\<exists>t'. findOne 3 7 (toggleSubtasks accept_all 3 7 [32, 31] [plan_task]) = Some t' \<and>
             is_completed t'"
    by (auto simp: plan_task_def)
  have found': "findOne 1 7 [report_done] = Some report_done"
    by (simp add: findOne_def report_done_def)
  have valid': "validate None report_done"
    by (simp add: run_defs report_done_def)
  have dist': "distinct (map subtask_id (subtasks report_done))" and ne': "subtasks report_done \<noteq> []"
    and cl: "is_completed report_done" "list_all subtask_is_completed (subtasks report_done)"
    by (simp_all add: report_done_def)
  have "\<exists>t' s'. toggleSubtaskCompletion accept_all 1 11 7 [report_done] =
                        (Success 200 (Some ''Subtask completion status toggled successfully'')
                           (Some t'), updateOne t' [report_done]) \<and>
                      findOne 1 7 (updateOne t' [report_done]) = Some t' \<and>
                      subtasks_id 11 (subtasks t') = Some s' \<and> \<not> subtask_is_completed s' \<and>
                      is_completed t'"
    by (rule subtasks_completed_one_by_one[OF found' valid' acc dist' ne', THEN conjunct2, THEN mp])
      (simp add: report_done_def)
  then have third: "\<exists>t' s'. findOne 1 7 (snd (toggleSubtaskCompletion accept_all 1 11 7 [report_done])) = Some t' \<and>
                subtasks_id 11 (subtasks t') = Some s' \<and> \<not> subtask_is_completed s' \<and>
                is_completed t'"
    by auto
  from acc found valid dist ne opn first second found' cl third show ?thesis by blast
qed

subsection \<open>Adding and removing a subtask\<close>

text \<open>
  C8. For a stored, valid task, a title that is valid once trimmed, a fresh subtask id
  and a database that accepts the writes: \<open>addSubtask\<close> succeeds and appends the new
  subtask, and \<open>deleteSubtask\<close> with the id of that subtask then succeeds and leaves
  the task with exactly the subtasks it had before, in their order.
\<close>

theorem add_then_remove_subtask:
  assumes "findOne tid uid db = Some t" and "validate None t" and "\<forall>x. accepts x"
    and "title_ok (Some (trim ttl))" and "new_id \<notin> subtask_id ` set (subtasks t)"
  shows "\<exists>t1 db1 t2 db2.
           addSubtask accepts new_id tid uid (Some ttl) done db =
             (Success 201 (Some ''Subtask added successfully'') (Some t1), db1) \<and>
           subtasks t1 = subtasks t @
             [\<lparr>subtask_id = new_id, subtask_title = Some (trim ttl),
               subtask_is_completed = (case done of None \<Rightarrow> False | Some c \<Rightarrow> c)\<rparr>] \<and>
           deleteSubtask accepts tid new_id uid db1 =
             (Success 200 (Some ''Subtask deleted successfully'') (Some t2), db2) \<and>
           subtasks t2 = subtasks t \<and> findOne tid uid db2 = Some t2"
proof -
  let ?new = "\<lparr>subtask_id = new_id, subtask_title = Some (trim ttl),
               subtask_is_completed = (case done of None \<Rightarrow> False | Some c \<Rightarrow> c)\<rparr>"
  let ?u1 = "t\<lparr>subtasks := subtasks t @ [?new]\<rparr>"
  let ?t1 = "pre_save ?u1"
  let ?db1 = "updateOne ?t1 db"
  let ?u2 = "?t1\<lparr>subtasks := pull new_id (subtasks ?t1)\<rparr>"
  let ?t2 = "pre_save ?u2"
  let ?db2 = "updateOne ?t2 ?db1"
  from findOne_SomeD[OF assms(1)] have ids: "task_id t = tid" "user_id t = uid" by simp_all
  have v1: "validate None ?u1"
    using assms(2,4) by (simp add: validate_def subtask_ok_def)
  with assms(3) have s1: "save accepts ?u1 db = Inr (?t1, ?db1)" by (simp add: save_ok)
  with assms(1) have add: "addSubtask accepts new_id tid uid (Some ttl) done db =
             (Success 201 (Some ''Subtask added successfully'') (Some ?t1), ?db1)"
    by (simp add: addSubtask_def Task_addSubtask_def reply_def)
  have sub1: "subtasks ?t1 = subtasks t @ [?new]" by (simp add: pre_save_eq)
  have found1: "findOne tid uid ?db1 = Some ?t1"
    using assms(1) ids by (simp add: findOne_updateOne pre_save_eq)
  have there: "subtasks_id new_id (subtasks ?t1) = Some ?new"
    unfolding sub1 using assms(5) by (simp add: subtasks_id_append_new)
  have pulled: "pull new_id (subtasks ?t1) = subtasks t"
    unfolding sub1 using assms(5) by (simp add: pull_append_new)
  have v2: "validate None ?u2"
    unfolding pulled using assms(2) by (simp add: validate_def pre_save_eq)
  with assms(3) have s2: "save accepts ?u2 ?db1 = Inr (?t2, ?db2)" by (simp add: save_ok)
  with found1 there have del: "deleteSubtask accepts tid new_id uid ?db1 =
             (Success 200 (Some ''Subtask deleted successfully'') (Some ?t2), ?db2)"
    by (simp add: deleteSubtask_def Task_removeSubtask_def reply_def)
  have sub2: "subtasks ?t2 = subtasks t"
    using pulled by (simp add: pre_save_eq)
  have found2: "findOne tid uid ?db2 = Some ?t2"
    using found1 ids by (simp add: findOne_updateOne pre_save_eq)
  from add sub1 del sub2 found2 show ?thesis by blast
qed

text \<open>The theorem at a title that needs trimming.\<close>

theorem add_then_remove_subtask_witness:
  "findOne 1 7 [report_task] = Some report_task
   \<and> validate None report_task \<and> (\<forall>x. accept_all x)
   \<and> title_ok (Some (trim '' Send ''))
   \<and> 13 \<notin> subtask_id ` set (subtasks report_task)
   \<and> (\<exists>t1 db1 t2 db2.
         addSubtask accept_all 13 1 7 (Some '' Send '') None [report_task] =
           (Success 201 (Some ''Subtask added successfully'') (Some t1), db1) \<and>
         subtasks t1 = subtasks report_task @
           [\<lparr>subtask_id = 13, subtask_title = Some ''Send'', subtask_is_completed = False\<rparr>] \<and>
         deleteSubtask accept_all 1 13 7 db1 =
           (Success 200 (Some ''Subtask deleted successfully'') (Some t2), db2) \<and>
         subtasks t2 = subtasks report_task \<and> findOne 1 7 db2 = Some t2)"
proof -
  have acc: "\<forall>x. accept_all x" by (simp add: accept_all_def)
  have found: "findOne 1 7 [report_task] = Some report_task"
    by (simp add: findOne_def report_task_def)
  have valid: "validate None report_task"
    by (simp add: run_defs report_task_def)
  have trimmed: "trim '' Send '' = ''Send''"
    by (simp add: trim_def is_space_def)
  have ok: "title_ok (Some (trim '' Send ''))"
    unfolding trimmed by (simp add: title_ok_def)
  have fresh: "13 \<notin> subtask_id ` set (subtasks report_task)"
    by (simp add: report_task_def)
  from add_then_remove_subtask[OF found valid acc ok fresh, of None]
  have "\<exists>t1 db1 t2 db2.
         addSubtask accept_all 13 1 7 (Some '' Send '') None [report_task] =
           (Success 201 (Some ''Subtask added successfully'') (Some t1), db1) \<and>
         subtasks t1 = subtasks report_task @
           [\<lparr>subtask_id = 13, subtask_title = Some ''Send'', subtask_is_completed = False\<rparr>] \<and>
         deleteSubtask accept_all 1 13 7 db1 =
           (Success 200 (Some ''Subtask deleted successfully'') (Some t2), db2) \<and>
         subtasks t2 = subtasks report_task \<and> findOne 1 7 db2 = Some t2"
    unfolding trimmed by simp
  with acc found valid ok fresh show ?thesis by blast
qed

subsection \<open>Updates and the notification flag\<close>




subsection \<open>The notification sweep\<close>



text \<open>
  C4. In every run of the sweep, whatever the mail host does and whatever writes the
  database would accept: every selected task with a recipient is handed to
  \<open>sendEmailNotification\<close>, in the order of the query; a task whose send fails is left in
  the collection as it was, with its flag false; and the collection after the run is the
  collection before it. The error thrown inside the dispatch is caught there, and the
  flag write, which comes only after a send that reports success, is never reached, so
  no task of a run keeps a later one from being processed.
\<close>

theorem sweep_continues_after_failed_send:
  assumes "checkAndSendNotifications accepts transport email_of now db = (attempted, emailed, db')"
  shows "attempted =
           map task_id (filter (\<lambda>t. recipient email_of t \<noteq> None) (filter (due_soon now) db))
    \<and> (\<forall>t\<in>set db. due_soon now t \<and> recipient email_of t \<noteq> None \<longrightarrow> task_id t \<in> set attempted)
    \<and> (\<forall>t\<in>set db. due_soon now t \<and> \<not> mailed transport email_of t \<longrightarrow>
           t \<in> set db' \<and> \<not> notification_sent t \<and> task_id t \<notin> set emailed)
    \<and> db' = db"
proof -
  from assms have a: "attempted =
           map task_id (filter (\<lambda>t. recipient email_of t \<noteq> None) (filter (due_soon now) db))"
    and e: "emailed = []" and d: "db' = db"
    by (auto simp: sweep_run)
  have "\<forall>t\<in>set db. due_soon now t \<and> recipient email_of t \<noteq> None \<longrightarrow> task_id t \<in> set attempted"
    unfolding a by auto
  moreover have "\<forall>t\<in>set db. due_soon now t \<and> \<not> mailed transport email_of t \<longrightarrow>
           t \<in> set db' \<and> \<not> notification_sent t \<and> task_id t \<notin> set emailed"
    unfolding e d by (simp add: due_soon_def)
  ultimately show ?thesis using a d by blast
qed

text \<open>
  The theorem at a run over two due tasks, with a mail host that would deliver and a
  database that would reject the write of the first task: both tasks are handed to the
  mailer, and both are left as they were.
\<close>

theorem sweep_continues_after_failed_send_witness:
  "checkAndSendNotifications reject_first deliver_all one_user 0 two_due = ([21, 22], [], two_due)
   \<and> errand 21 \<in> set two_due \<and> due_soon 0 (errand 21)
   \<and> \<not> mailed deliver_all one_user (errand 21) \<and> \<not> notification_sent (errand 21)
   \<and> errand 22 \<in> set two_due \<and> due_soon 0 (errand 22)
   \<and> recipient one_user (errand 22) = Some ''ann@example.org''
   \<and> task_id (errand 22) \<in> set [21, 22]"
proof -
  have run: "checkAndSendNotifications reject_first deliver_all one_user 0 two_due
      = ([21, 22], [], two_due)"
    by (simp add: sweep_defs run_defs)
  note facts = sweep_continues_after_failed_send[OF run]
  have one: "errand 21 \<in> set two_due" "due_soon 0 (errand 21)"
    "\<not> mailed deliver_all one_user (errand 21)"
    and two: "errand 22 \<in> set two_due" "due_soon 0 (errand 22)"
    "recipient one_user (errand 22) = Some ''ann@example.org''"
    by (simp_all add: sweep_defs)
  from facts one have "errand 21 \<in> set two_due \<and> \<not> notification_sent (errand 21)"
    by blast
  moreover from facts two have "task_id (errand 22) \<in> set [21, 22]"
    by auto
  ultimately show ?thesis using run one two by blast
qed

subsection \<open>Pagination\<close>

text \<open>
  C5. The pagination data of \<open>getTasks\<close>: \<open>totalTasks\<close> counts the tasks of the owner,
  \<open>totalPages\<close> is \<^verbatim>\<open>Math.ceil(totalTasks / limit)\<close> (the ceiling of the quotient for a
  positive limit), \<open>hasNextPage\<close> is \<open>page < totalPages\<close> and \<open>hasPrevPage\<close> is
  \<open>page > 1\<close>; none of it depends on the filters, the search or the sort of the query.
  For an owner with exactly 15 tasks, page 2 with limit 10 and no filter holds 5 tasks,
  has no next page and has a previous page.
\<close>

theorem getTasks_pagination:
  "(let f = build_filters q; p = snd (getTasks regex uid q db)
    in currentPage p = f_page f \<and>
       totalTasks p = length (filter (\<lambda>t. user_id t = uid) db) \<and>
       totalPages p = ceil_div (totalTasks p) (f_limit f) \<and>
       (0 < f_limit f \<longrightarrow>
          totalPages p = Finite (nat \<lceil>real (totalTasks p) / real (f_limit f)\<rceil>)) \<and>
       hasNextPage p = less_number (f_page f) (totalPages p) \<and>
       hasPrevPage p = (1 < f_page f))
   \<and> snd (getTasks regex uid q db) =
       snd (getTasks regex' uid
             (q\<lparr>q_priority := pr, q_is_completed := co, q_due_date_from := lo,
                q_due_date_to := hi, q_search := se, q_sort_by := sb, q_sort_order := so\<rparr>) db)
   \<and> (length (filter (\<lambda>t. user_id t = uid) db) = 15 \<longrightarrow>
        (let r = getTasks regex uid
                   \<lparr>q_page = Some 2, q_limit = Some 10, q_priority = None,
                    q_is_completed = None, q_sort_by = sb, q_sort_order = so,
                    q_due_date_from = None, q_due_date_to = None, q_search = None\<rparr> db
         in length (fst r) = 5 \<and> hasNextPage (snd r) = False \<and> hasPrevPage (snd r) = True \<and>
            totalPages (snd r) = Finite 2 \<and> totalTasks (snd r) = 15))"
proof (intro conjI impI)
  show "let f = build_filters q; p = snd (getTasks regex uid q db)
    in currentPage p = f_page f \<and>
       totalTasks p = length (filter (\<lambda>t. user_id t = uid) db) \<and>
       totalPages p = ceil_div (totalTasks p) (f_limit f) \<and>
       (0 < f_limit f \<longrightarrow>
          totalPages p = Finite (nat \<lceil>real (totalTasks p) / real (f_limit f)\<rceil>)) \<and>
       hasNextPage p = less_number (f_page f) (totalPages p) \<and>
       hasPrevPage p = (1 < f_page f)"
    by (simp add: getTasks_def Let_def countDocuments_def ceil_div_ceiling)
  show "snd (getTasks regex uid q db) =
       snd (getTasks regex' uid
             (q\<lparr>q_priority := pr, q_is_completed := co, q_due_date_from := lo,
                q_due_date_to := hi, q_search := se, q_sort_by := sb, q_sort_order := so\<rparr>) db)"
    by (simp add: getTasks_def Let_def build_filters_def)
next
  assume n: "length (filter (\<lambda>t. user_id t = uid) db) = 15"
  let ?q = "\<lparr>q_page = Some 2, q_limit = Some 10, q_priority = None,
                    q_is_completed = None, q_sort_by = sb, q_sort_order = so,
                    q_due_date_from = None, q_due_date_to = None, q_search = None\<rparr>"
  have m: "matches regex uid (build_filters ?q) = (\<lambda>t. user_id t = uid)"
    by (rule ext) (simp add: matches_def build_filters_def provided_def)
  have "length (findByUserWithFilters regex uid (build_filters ?q) db) = 5"
    unfolding findByUserWithFilters_def Let_def m
    by (simp add: build_filters_def length_sort_tasks n)
  then show "let r = getTasks regex uid ?q db
         in length (fst r) = 5 \<and> hasNextPage (snd r) = False \<and> hasPrevPage (snd r) = True \<and>
            totalPages (snd r) = Finite 2 \<and> totalTasks (snd r) = 15"
    using n by (simp add: getTasks_def Let_def countDocuments_def ceil_div_def build_filters_def)
qed

text \<open>
  The theorem at the collection of fifteen tasks: page 2 holds 5 tasks; and the page of
  the completed tasks is empty, yet it reports the same 15 tasks and a next page.
\<close>

theorem getTasks_pagination_witness:
  "length (filter (\<lambda>t. user_id t = 7) fifteen_tasks) = 15
   \<and> length (fst (getTasks no_match 7 page_two fifteen_tasks)) = 5
   \<and> hasNextPage (snd (getTasks no_match 7 page_two fifteen_tasks)) = False
   \<and> hasPrevPage (snd (getTasks no_match 7 page_two fifteen_tasks)) = True
   \<and> totalPages (snd (getTasks no_match 7 page_two fifteen_tasks)) = Finite 2
   \<and> 0 < f_limit (build_filters completed_page_one)
   \<and> fst (getTasks no_match 7 completed_page_one fifteen_tasks) = []
   \<and> totalTasks (snd (getTasks no_match 7 completed_page_one fifteen_tasks)) = 15
   \<and> totalPages (snd (getTasks no_match 7 completed_page_one fifteen_tasks)) = Finite 2
   \<and> hasNextPage (snd (getTasks no_match 7 completed_page_one fifteen_tasks)) = True"
proof -
  have n: "length (filter (\<lambda>t. user_id t = 7) fifteen_tasks) = 15"
    by (simp add: fifteen_tasks_def report_task_def filter_map o_def)
  have two: "let r = getTasks no_match 7 page_two fifteen_tasks
         in length (fst r) = 5 \<and> hasNextPage (snd r) = False \<and> hasPrevPage (snd r) = True \<and>
            totalPages (snd r) = Finite 2 \<and> totalTasks (snd r) = 15"
    unfolding page_two_def
    by (rule getTasks_pagination[THEN conjunct2, THEN conjunct2, THEN mp, OF n])
  have lim: "0 < f_limit (build_filters completed_page_one)"
    by (simp add: build_filters_def completed_page_one_def)
  have "let f = build_filters completed_page_one;
            p = snd (getTasks no_match 7 completed_page_one fifteen_tasks)
    in currentPage p = f_page f \<and>
       totalTasks p = length (filter (\<lambda>t. user_id t = 7) fifteen_tasks) \<and>
       totalPages p = ceil_div (totalTasks p) (f_limit f) \<and>
       (0 < f_limit f \<longrightarrow>
          totalPages p = Finite (nat \<lceil>real (totalTasks p) / real (f_limit f)\<rceil>)) \<and>
       hasNextPage p = less_number (f_page f) (totalPages p) \<and>
       hasPrevPage p = (1 < f_page f)"
    by (rule getTasks_pagination[THEN conjunct1])
  with n have one: "totalTasks (snd (getTasks no_match 7 completed_page_one fifteen_tasks)) = 15"
    "totalPages (snd (getTasks no_match 7 completed_page_one fifteen_tasks)) = Finite 2"
    "hasNextPage (snd (getTasks no_match 7 completed_page_one fifteen_tasks)) = True"
    by (simp_all add: Let_def build_filters_def completed_page_one_def ceil_div_def)
  have none: "fst (getTasks no_match 7 completed_page_one fifteen_tasks) = []"
    by (simp add: getTasks_def findByUserWithFilters_def Let_def matches_def build_filters_def
        provided_def completed_page_one_def fifteen_tasks_def report_task_def filter_map o_def
        sort_tasks_def sort_by_def sortOptions_def)
  from n two lim one none show ?thesis by (simp add: Let_def)
qed

subsection \<open>Ownership\<close>

text \<open>
  C6. When the collection holds no task with the given id that belongs to the given
  owner, be it that the id is unknown or that the task is another owner's, every request
  on a task answers with the same 404 response \<open>Task not found\<close> and leaves the
  collection as it is.
\<close>

theorem not_found_uniform:
  assumes "\<forall>t\<in>set db. task_id t = tid \<longrightarrow> user_id t \<noteq> uid"
  shows "getTask tid uid db = (NotFound ''Task not found'', db) \<and>
         updateTask accepts tid uid p db = (NotFound ''Task not found'', db) \<and>
         deleteTask accepts tid uid db = (NotFound ''Task not found'', db) \<and>
         addSubtask accepts new_id tid uid ttl done db = (NotFound ''Task not found'', db) \<and>
         updateSubtask accepts tid sid uid ttl done db = (NotFound ''Task not found'', db) \<and>
         deleteSubtask accepts tid sid uid db = (NotFound ''Task not found'', db) \<and>
         toggleTaskCompletion accepts tid uid db = (NotFound ''Task not found'', db) \<and>
         toggleSubtaskCompletion accepts tid sid uid db = (NotFound ''Task not found'', db)"
  using findOne_None[OF assms]
  by (simp add: getTask_def updateTask_def deleteTask_def addSubtask_def updateSubtask_def
      deleteSubtask_def toggleTaskCompletion_def toggleSubtaskCompletion_def)

text \<open>
  The theorem at an id that no task has, and at the id of a task of owner 7 asked for by
  owner 8: the two answers are the same.
\<close>

theorem not_found_uniform_witness:
  "getTask 5 8 [] = (NotFound ''Task not found'', [])
   \<and> getTask 1 8 [report_task] = (NotFound ''Task not found'', [report_task])
   \<and> fst (deleteTask accept_all 5 8 []) = fst (deleteTask accept_all 1 8 [report_task])
   \<and> fst (toggleSubtaskCompletion accept_all 5 12 8 [])
       = fst (toggleSubtaskCompletion accept_all 1 12 8 [report_task])
   \<and> task_id report_task = 1 \<and> user_id report_task = 7"
proof -
  have absent: "\<forall>t\<in>set ([] :: store). task_id t = 5 \<longrightarrow> user_id t \<noteq> 8"
    by simp
  have other: "\<forall>t\<in>set [report_task]. task_id t = 1 \<longrightarrow> user_id t \<noteq> 8"
    by (simp add: report_task_def)
  from not_found_uniform[OF absent, of accept_all reschedule 0 None None 12]
    not_found_uniform[OF other, of accept_all reschedule 0 None None 12]
  show ?thesis by (simp add: report_task_def)
qed

subsection \<open>Overdue tasks\<close>

text \<open>
  C9, as the code has it. \<open>isOverdue\<close> returns \<^verbatim>\<open>true\<close> exactly when the task has a due
  date, the due date is strictly before the current time and the task is not completed.
  For a task without a due date the result is never \<^verbatim>\<open>true\<close>, at every time: it is the
  absent due date itself, which is falsy.
\<close>

theorem isOverdue_iff:
  "(isOverdue now t = Boolean True) =
     ((\<exists>d. due_date t = Some d \<and> d < now) \<and> \<not> is_completed t)
   \<and> truthy (isOverdue now t) = (isOverdue now t = Boolean True)
   \<and> isOverdue now (t\<lparr>due_date := None\<rparr>) = Undefined
   \<and> \<not> truthy (isOverdue now (t\<lparr>due_date := None\<rparr>))"
  by (cases "due_date t") (auto simp: isOverdue_def)

text \<open>
  The claim as the specification states it fails: for a task without a due date the
  getter does not return the boolean \<^verbatim>\<open>false\<close>.
\<close>

theorem isOverdue_without_due_date:
  "due_date report_task = None
   \<and> isOverdue 0 report_task = Undefined
   \<and> isOverdue 0 report_task \<noteq> Boolean False"
  by (simp add: isOverdue_def report_task_def)

end
